theory Spec2Isabelle
  imports Complex_Main "HOL-Library.Sublist"
begin

section \<open>Data model\<close>

text \<open>
  The add-on works on the animation data of one armature object. The parts of the host's
  data that the operators read or write are embedded as records:
  a keyframe point with the seven attributes that \<^verbatim>\<open>copy_keyframe_data\<close> reads, an F-curve
  (data path, array index, keyframe points), the active action as the list of its F-curves
  in collection order, the object, the scene properties registered by \<^verbatim>\<open>register()\<close> and
  the context an operator receives. Pose bones are identified by their names, which the
  host keeps unique within one armature. Frame numbers and values are floats in the host;
  the operators only multiply a value by \<^verbatim>\<open>1\<close> or \<^verbatim>\<open>-1\<close>, which is exact on floats, so
  both are embedded as reals.
\<close>

record keyframe =
  co :: "real \<times> real"
  handle_left :: "real \<times> real"
  handle_right :: "real \<times> real"
  interpolation :: string
  easing :: string
  handle_left_type :: string
  handle_right_type :: string

record fcurve =
  data_path :: string
  array_index :: int
  keyframe_points :: "keyframe list"

datatype animdata = AnimData (action: "fcurve list option")

record bpy_object =
  obj_type :: string
  pose_bones :: "string list"
  animation_data :: "animdata option"

record scene_props =
  source_x_axis :: string
  source_y_axis :: string
  source_z_axis :: string
  replace_all_keyframes :: bool
  secondary_x_axis :: string
  secondary_y_axis :: string
  secondary_z_axis :: string
  secondary_replace_all_keyframes :: bool
  primary_mapper :: string
  primary_suffix :: string
  secondary_mapper :: string
  secondary_suffix :: string

record bpy_context =
  ctx_object :: "bpy_object option"
  selected_pose_bones :: "string list option"
  active_pose_bone :: "string option"
  scene :: scene_props

subsection \<open>Outcomes and reports\<close>

text \<open>
  An operator returns \<^verbatim>\<open>{'FINISHED'}\<close> or \<^verbatim>\<open>{'CANCELLED'}\<close>, or a Python exception leaves
  it. Every \<^verbatim>\<open>self.report\<close> call is kept, in order, as a severity and a structured message
  (one constructor per message text of the source, with the values its f-string shows).
\<close>

datatype status = FINISHED | CANCELLED

datatype pyexc = AttributeError | TypeError | RuntimeError

datatype ret = Returned status | Raised pyexc

datatype severity = INFO | WARNING | ERROR

datatype message =
    NotArmature
  | SelectTwoBones
  | ActiveNotSelected
  | NoAnimationData
  | SkipAxisIndex int
  | InvalidAxisMapping string
  | MappingInfo int string int int
  | NoKeyframeData int
  | SourceKeyInfo real real real
  | TargetKeyInfo real real int
  | CopiedAxis string
  | CopiedAllAxes
  | NoBonesSelected
  | NoValidPairs
  | RemapAllCompleted
  | NoActivePoseBone
  | NoActionFound
  | NoKeyframesFor string int
  | Flipped string int string
  | Swapped string string

type_synonym report = "severity \<times> message"

record result =
  res_ret :: ret
  res_log :: "report list"
  res_ctx :: bpy_context

definition cancel :: "bpy_context \<Rightarrow> report list \<Rightarrow> result" where
  "cancel ctx lg = \<lparr>res_ret = Returned CANCELLED, res_log = lg, res_ctx = ctx\<rparr>"

definition raise :: "pyexc \<Rightarrow> bpy_context \<Rightarrow> report list \<Rightarrow> result" where
  "raise e ctx lg = \<lparr>res_ret = Raised e, res_log = lg, res_ctx = ctx\<rparr>"

definition finish :: "bpy_context \<Rightarrow> report list \<Rightarrow> result" where
  "finish ctx lg = \<lparr>res_ret = Returned FINISHED, res_log = lg, res_ctx = ctx\<rparr>"

definition set_fcurves :: "bpy_context \<Rightarrow> bpy_object \<Rightarrow> fcurve list \<Rightarrow> bpy_context" where
  "set_fcurves ctx obj fcs =
     ctx\<lparr>ctx_object := Some (obj\<lparr>animation_data := Some (AnimData (Some fcs))\<rparr>)\<rparr>"

section \<open>The host's collections\<close>

text \<open>
  The operators call four operations of the host on these collections. They are not code
  of the add-on; the embedding fixes them as follows.

  \<^item> \<^verbatim>\<open>keyframe_points.insert(frame, value)\<close> keeps the points ordered by frame. When the
    curve already has a point at that frame, its value is overwritten and the rest of the
    point is kept; otherwise a new point is placed before the first point with a later
    frame. The shape of a new point (handles, interpolation, easing, handle types) is the
    host's default, the parameter \<open>new\<close> of the embedding; its coordinates are those
    inserted. Frames are compared exactly.
  \<^item> \<^verbatim>\<open>keyframe_points.clear()\<close> removes every point.
  \<^item> \<^verbatim>\<open>fcurves.new(data_path, index)\<close> appends an empty curve to the collection.
  \<^item> \<^verbatim>\<open>fcurve.update()\<close> re-sorts the points by frame and recomputes automatic handles;
    the one caller changed no frame before it, and the embedding leaves the points as
    they are.
\<close>

fun kp_insert :: "(real \<Rightarrow> real \<Rightarrow> keyframe) \<Rightarrow> real \<Rightarrow> real \<Rightarrow> keyframe list \<Rightarrow> keyframe list" where
  "kp_insert new t v [] = [(new t v)\<lparr>co := (t, v)\<rparr>]"
| "kp_insert new t v (k # ks) =
     (if fst (co k) = t then k\<lparr>co := (t, v)\<rparr> # ks
      else if t < fst (co k) then (new t v)\<lparr>co := (t, v)\<rparr> # k # ks
      else k # kp_insert new t v ks)"

text \<open>The position of the point that \<open>insert\<close> returns: the first point not before \<open>t\<close>.\<close>

fun kp_index :: "real \<Rightarrow> keyframe list \<Rightarrow> nat" where
  "kp_index t [] = 0"
| "kp_index t (k # ks) = (if t \<le> fst (co k) then 0 else Suc (kp_index t ks))"

definition kp_clear :: "fcurve \<Rightarrow> fcurve" where
  "kp_clear fc = fc\<lparr>keyframe_points := []\<rparr>"

definition fcurves_new :: "string \<Rightarrow> int \<Rightarrow> fcurve list \<Rightarrow> fcurve list" where
  "fcurves_new path idx fcs =
     fcs @ [\<lparr>data_path = path, array_index = idx, keyframe_points = []\<rparr>]"

definition fcurve_update :: "fcurve \<Rightarrow> fcurve" where
  "fcurve_update fc = fc"

text \<open>
  \<^verbatim>\<open>next((fc for fc in action.fcurves if fc.data_path == path and fc.array_index == idx), None)\<close>:
  the position of the first curve with that path and index.
\<close>

fun find_fcurve :: "string \<Rightarrow> int \<Rightarrow> fcurve list \<Rightarrow> nat option" where
  "find_fcurve path idx [] = None"
| "find_fcurve path idx (fc # fcs) =
     (if data_path fc = path \<and> array_index fc = idx then Some 0
      else map_option Suc (find_fcurve path idx fcs))"

text \<open>The keyframe points of the channel \<open>(path, idx)\<close>, when the action has it.\<close>

definition channel :: "string \<Rightarrow> int \<Rightarrow> fcurve list \<Rightarrow> keyframe list option" where
  "channel path idx fcs = map_option (\<lambda>k. keyframe_points (fcs ! k)) (find_fcurve path idx fcs)"

section \<open>Data paths\<close>

text \<open>\<^verbatim>\<open>f'pose.bones["{bone.name}"].{prop}'\<close> and Python's \<^verbatim>\<open>str.split('.')[-1]\<close>.\<close>

definition bone_path :: "string \<Rightarrow> string \<Rightarrow> string" where
  \<open>bone_path name prop = ''pose.bones["'' @ name @ ''"].'' @ prop\<close>

fun split_on :: "char \<Rightarrow> string \<Rightarrow> string list" where
  "split_on d [] = [[]]"
| "split_on d (c # cs) =
     (if c = d then [] # split_on d cs
      else (case split_on d cs of [] \<Rightarrow> [[c]] | w # ws \<Rightarrow> (c # w) # ws))"

definition last_component :: "string \<Rightarrow> string" where
  "last_component path = last (split_on CHR ''.'' path)"

section \<open>Flipping one channel\<close>

text \<open>\<^verbatim>\<open>FlipKeyframeAxisOperator.execute\<close>, with the operator's \<open>property\<close> and \<open>axis\<close>.\<close>

definition flip_point :: "keyframe \<Rightarrow> keyframe" where
  "flip_point kp =
     kp\<lparr>co := (fst (co kp), snd (co kp) * (-1)),
        handle_left := (fst (handle_left kp), snd (handle_left kp) * (-1)),
        handle_right := (fst (handle_right kp), snd (handle_right kp) * (-1))\<rparr>"

definition FlipKeyframeAxisOperator_execute :: "string \<Rightarrow> int \<Rightarrow> bpy_context \<Rightarrow> result" where
  "FlipKeyframeAxisOperator_execute property axis ctx =
     (case ctx_object ctx of
        None \<Rightarrow> cancel ctx [(ERROR, NotArmature)]
      | Some obj \<Rightarrow>
          if obj_type obj \<noteq> ''ARMATURE'' then cancel ctx [(ERROR, NotArmature)]
          else (case active_pose_bone ctx of
             None \<Rightarrow> cancel ctx [(ERROR, NoActivePoseBone)]
           | Some pose_bone \<Rightarrow>
              (case (case animation_data obj of None \<Rightarrow> None | Some ad \<Rightarrow> action ad) of
                 None \<Rightarrow> cancel ctx [(ERROR, NoActionFound)]
               | Some fcs \<Rightarrow>
                  (case find_fcurve (bone_path pose_bone property) axis fcs of
                     None \<Rightarrow> cancel ctx [(WARNING, NoKeyframesFor property axis)]
                   | Some k \<Rightarrow>
                      finish
                        (set_fcurves ctx obj
                           (fcs[k := fcurve_update
                              ((fcs ! k)\<lparr>keyframe_points := map flip_point (keyframe_points (fcs ! k))\<rparr>)]))
                        [(INFO, Flipped property axis pose_bone)]))))"

section \<open>The transfer loop\<close>

text \<open>
  \<^verbatim>\<open>CopyBoneKeyframesOperator.execute\<close> and \<^verbatim>\<open>RemapAllBonesOperator.execute\<close> contain the same
  loop over \<^verbatim>\<open>action.fcurves\<close>; it is embedded once. The state of the loop is the list
  of F-curves and the reports made so far.
\<close>

definition axis_mapping :: "string \<Rightarrow> (int \<times> int) option" where
  "axis_mapping =
     map_of [(''X+'', (0, 1)), (''X-'', (0, -1)), (''Y+'', (1, 1)),
             (''Y-'', (1, -1)), (''Z+'', (2, 1)), (''Z-'', (2, -1))]"

definition source_prefix :: "string \<Rightarrow> string" where
  "source_prefix source_bone = bone_path source_bone ''location''"

text \<open>The body of \<^verbatim>\<open>for keyframe in fcurve.keyframe_points\<close>; \<open>k\<close> is the target curve.\<close>

definition copy_keyframe ::
  "(real \<Rightarrow> real \<Rightarrow> keyframe) \<Rightarrow> nat \<Rightarrow> int \<Rightarrow> int \<Rightarrow>
   fcurve list \<times> report list \<Rightarrow> keyframe \<Rightarrow> fcurve list \<times> report list" where
  "copy_keyframe new k target_axis_index scale st keyframe =
     (let fcs = fst st;
          scaled_value = snd (co keyframe) * of_int scale
      in (fcs[k := (fcs ! k)\<lparr>keyframe_points :=
                     kp_insert new (fst (co keyframe)) scaled_value (keyframe_points (fcs ! k))\<rparr>],
          snd st @ [(INFO, SourceKeyInfo (fst (co keyframe)) (snd (co keyframe)) scaled_value),
                    (INFO, TargetKeyInfo (fst (co keyframe)) scaled_value target_axis_index)]))"

text \<open>
  The body of \<^verbatim>\<open>for fcurve in action.fcurves\<close> for the curve at position \<open>i\<close>. The
  source curve is read from the current state, after the target curve has been created and
  cleared, as the source reads \<^verbatim>\<open>fcurve.keyframe_points\<close> after these calls. The inner loop
  runs over the points that the source curve has at that moment; the inserts go to the
  target curve, which is another curve whenever the two bones have different paths.
\<close>

definition copy_fcurve ::
  "(real \<Rightarrow> real \<Rightarrow> keyframe) \<Rightarrow> string \<Rightarrow> string \<Rightarrow> string list \<Rightarrow> bool \<Rightarrow>
   fcurve list \<times> report list \<Rightarrow> nat \<Rightarrow> fcurve list \<times> report list" where
  "copy_fcurve new source_bone target_bone source_axes replace_all st i =
     (let fcs = fst st; lg = snd st; fcurve = fcs ! i in
      if \<not> prefix (source_prefix source_bone) (data_path fcurve) then st
      else
        let property_name = last_component (data_path fcurve);
            source_axis_index = array_index fcurve in
        if source_axis_index < 0 \<or> source_axis_index \<ge> int (length source_axes)
        then (fcs, lg @ [(WARNING, SkipAxisIndex source_axis_index)])
        else
          let target_axis = source_axes ! nat source_axis_index in
          (case axis_mapping target_axis of
             None \<Rightarrow> (fcs, lg @ [(WARNING, InvalidAxisMapping target_axis)])
           | Some (target_axis_index, scale) \<Rightarrow>
               let lg1 = lg @ [(INFO, MappingInfo source_axis_index target_axis target_axis_index scale)];
                   target_path = bone_path target_bone property_name;
                   (fcs1, k) = (case find_fcurve target_path target_axis_index fcs of
                                  Some k \<Rightarrow> (fcs, k)
                                | None \<Rightarrow> (fcurves_new target_path target_axis_index fcs, length fcs));
                   fcs2 = (if replace_all then fcs1[k := kp_clear (fcs1 ! k)] else fcs1)
               in
               if keyframe_points (fcs2 ! i) = []
               then (fcs2, lg1 @ [(WARNING, NoKeyframeData source_axis_index)])
               else foldl (copy_keyframe new k target_axis_index scale) (fcs2, lg1)
                      (keyframe_points (fcs2 ! i))))"

text \<open>
  The loop visits the curves that the action has when the loop starts, in collection
  order. Curves that \<^verbatim>\<open>fcurves.new\<close> appends meanwhile are curves of the target bone; their
  paths do not begin with the source bone's prefix when the two bones have different plain
  names (\<open>separate_paths\<close> below), so that visiting them would change nothing.
\<close>

definition copy_fcurves ::
  "(real \<Rightarrow> real \<Rightarrow> keyframe) \<Rightarrow> string \<Rightarrow> string \<Rightarrow> string list \<Rightarrow> bool \<Rightarrow>
   fcurve list \<times> report list \<Rightarrow> fcurve list \<times> report list" where
  "copy_fcurves new source_bone target_bone source_axes replace_all st =
     foldl (copy_fcurve new source_bone target_bone source_axes replace_all) st
       [0..<length (fst st)]"

definition primary_profile :: "scene_props \<Rightarrow> string list \<times> bool" where
  "primary_profile sc =
     ([source_x_axis sc, source_y_axis sc, source_z_axis sc], replace_all_keyframes sc)"

definition secondary_profile :: "scene_props \<Rightarrow> string list \<times> bool" where
  "secondary_profile sc =
     ([secondary_x_axis sc, secondary_y_axis sc, secondary_z_axis sc],
      secondary_replace_all_keyframes sc)"

section \<open>Copying between the two selected bones\<close>

text \<open>
  \<^verbatim>\<open>CopyBoneKeyframesOperator.execute\<close> with the operator's \<open>axis\<close> and
  \<open>use_secondary_mapping\<close>. \<^verbatim>\<open>len(None)\<close> raises \<^verbatim>\<open>TypeError\<close>, and
  \<^verbatim>\<open>obj.animation_data.action\<close> raises \<^verbatim>\<open>AttributeError\<close> when the object has no
  animation data.
\<close>

definition CopyBoneKeyframesOperator_execute ::
  "(real \<Rightarrow> real \<Rightarrow> keyframe) \<Rightarrow> string \<Rightarrow> bool \<Rightarrow> bpy_context \<Rightarrow> result" where
  "CopyBoneKeyframesOperator_execute new axis use_secondary_mapping ctx =
     (case ctx_object ctx of
        None \<Rightarrow> cancel ctx [(ERROR, NotArmature)]
      | Some obj \<Rightarrow>
          if obj_type obj \<noteq> ''ARMATURE'' then cancel ctx [(ERROR, NotArmature)]
          else (case selected_pose_bones ctx of
             None \<Rightarrow> raise TypeError ctx []
           | Some selected_bones \<Rightarrow>
              if length selected_bones \<noteq> 2 then cancel ctx [(ERROR, SelectTwoBones)]
              else (case active_pose_bone ctx of
                 None \<Rightarrow> cancel ctx [(ERROR, ActiveNotSelected)]
               | Some active_bone \<Rightarrow>
                  if active_bone \<notin> set selected_bones then cancel ctx [(ERROR, ActiveNotSelected)]
                  else
                    let source_bone = (if selected_bones ! 1 = active_bone
                                       then selected_bones ! 0 else selected_bones ! 1);
                        target_bone = active_bone;
                        (source_axes, replace_all) =
                           (if use_secondary_mapping then secondary_profile (scene ctx)
                            else primary_profile (scene ctx))
                    in
                    (case animation_data obj of
                       None \<Rightarrow> raise AttributeError ctx []
                     | Some ad \<Rightarrow>
                        (case action ad of
                           None \<Rightarrow> cancel ctx [(ERROR, NoAnimationData)]
                         | Some fcs \<Rightarrow>
                            let st = copy_fcurves new source_bone target_bone source_axes
                                       replace_all (fcs, [])
                            in finish (set_fcurves ctx obj (fst st))
                                 (snd st @ [(INFO, CopiedAxis axis)]))))))"

text \<open>
  \<^verbatim>\<open>CopyAllAxesKeyframesOperator.execute\<close> calls the operator above through \<^verbatim>\<open>bpy.ops\<close>
  for \<open>X\<close>, \<open>Y\<close> and \<open>Z\<close> and ignores the returned status. The host raises
  \<^verbatim>\<open>RuntimeError\<close> in the caller when the called operator made an error report or was left
  by an exception.
\<close>

fun copy_all_loop ::
  "(real \<Rightarrow> real \<Rightarrow> keyframe) \<Rightarrow> bool \<Rightarrow> string list \<Rightarrow> bpy_context \<Rightarrow> report list \<Rightarrow> result" where
  "copy_all_loop new use_secondary_mapping [] ctx lg = finish ctx (lg @ [(INFO, CopiedAllAxes)])"
| "copy_all_loop new use_secondary_mapping (axis # axes) ctx lg =
     (let r = CopyBoneKeyframesOperator_execute new axis use_secondary_mapping ctx in
      if (\<exists>e. res_ret r = Raised e) \<or> ERROR \<in> fst ` set (res_log r)
      then raise RuntimeError (res_ctx r) (lg @ res_log r)
      else copy_all_loop new use_secondary_mapping axes (res_ctx r) (lg @ res_log r))"

definition CopyAllAxesKeyframesOperator_execute ::
  "(real \<Rightarrow> real \<Rightarrow> keyframe) \<Rightarrow> bool \<Rightarrow> bpy_context \<Rightarrow> result" where
  "CopyAllAxesKeyframesOperator_execute new use_secondary_mapping ctx =
     (case ctx_object ctx of
        None \<Rightarrow> cancel ctx [(ERROR, NotArmature)]
      | Some obj \<Rightarrow>
          if obj_type obj \<noteq> ''ARMATURE'' then cancel ctx [(ERROR, NotArmature)]
          else (case selected_pose_bones ctx of
             None \<Rightarrow> raise TypeError ctx []
           | Some selected_bones \<Rightarrow>
              if length selected_bones \<noteq> 2 then cancel ctx [(ERROR, SelectTwoBones)]
              else (case active_pose_bone ctx of
                 None \<Rightarrow> cancel ctx [(ERROR, ActiveNotSelected)]
               | Some active_bone \<Rightarrow>
                  if active_bone \<notin> set selected_bones then cancel ctx [(ERROR, ActiveNotSelected)]
                  else copy_all_loop new use_secondary_mapping [''X'', ''Y'', ''Z''] ctx [])))"

section \<open>Remapping all paired bones\<close>

text \<open>Python's \<^verbatim>\<open>name[:-n]\<close> for \<open>n = len(primary_suffix)\<close>; \<^verbatim>\<open>name[:-0]\<close> is \<^verbatim>\<open>name[:0]\<close>.\<close>

definition slice_to_neg :: "nat \<Rightarrow> string \<Rightarrow> string" where
  "slice_to_neg n name = (if n = 0 then [] else take (length name - n) name)"

definition pose_bones_get :: "bpy_object \<Rightarrow> string \<Rightarrow> string option" where
  "pose_bones_get obj name = (if name \<in> set (pose_bones obj) then Some name else None)"

fun pair_bones :: "bpy_object \<Rightarrow> string list \<Rightarrow> string \<Rightarrow> string list \<Rightarrow> (string \<times> string) list" where
  "pair_bones obj selected_bones sfx [] = []"
| "pair_bones obj selected_bones sfx (bone # bones) =
     (if suffix sfx bone then
        (let base_name = slice_to_neg (length sfx) bone in
         case pose_bones_get obj base_name of
           None \<Rightarrow> pair_bones obj selected_bones sfx bones
         | Some source_bone \<Rightarrow>
             if source_bone \<in> set selected_bones
             then (source_bone, bone) # pair_bones obj selected_bones sfx bones
             else pair_bones obj selected_bones sfx bones)
      else pair_bones obj selected_bones sfx bones)"

definition select_profile :: "scene_props \<Rightarrow> string \<Rightarrow> string list \<times> bool" where
  "select_profile sc source_bone =
     (if sublist (secondary_mapper sc) source_bone then secondary_profile sc
      else primary_profile sc)"

fun remap_pairs ::
  "(real \<Rightarrow> real \<Rightarrow> keyframe) \<Rightarrow> bpy_context \<Rightarrow> (string \<times> string) list \<Rightarrow>
   bpy_object \<Rightarrow> report list \<Rightarrow> result" where
  "remap_pairs new ctx [] obj lg =
     finish (ctx\<lparr>ctx_object := Some obj\<rparr>) (lg @ [(INFO, RemapAllCompleted)])"
| "remap_pairs new ctx ((source_bone, target_bone) # pairs) obj lg =
     (let (source_axes, replace_all) = select_profile (scene ctx) source_bone in
      case animation_data obj of
        None \<Rightarrow> raise AttributeError (ctx\<lparr>ctx_object := Some obj\<rparr>) lg
      | Some ad \<Rightarrow>
         (case action ad of
            None \<Rightarrow> cancel (ctx\<lparr>ctx_object := Some obj\<rparr>) (lg @ [(ERROR, NoAnimationData)])
          | Some fcs \<Rightarrow>
             let st = copy_fcurves new source_bone target_bone source_axes replace_all (fcs, lg)
             in remap_pairs new ctx pairs
                  (obj\<lparr>animation_data := Some (AnimData (Some (fst st)))\<rparr>) (snd st)))"

definition RemapAllBonesOperator_execute :: "(real \<Rightarrow> real \<Rightarrow> keyframe) \<Rightarrow> bpy_context \<Rightarrow> result" where
  "RemapAllBonesOperator_execute new ctx =
     (case ctx_object ctx of
        None \<Rightarrow> cancel ctx [(ERROR, NotArmature)]
      | Some obj \<Rightarrow>
          if obj_type obj \<noteq> ''ARMATURE'' then cancel ctx [(ERROR, NotArmature)]
          else (case selected_pose_bones ctx of
             None \<Rightarrow> cancel ctx [(ERROR, NoBonesSelected)]
           | Some selected_bones \<Rightarrow>
              if selected_bones = [] then cancel ctx [(ERROR, NoBonesSelected)]
              else
                let bone_pairs = pair_bones obj selected_bones (primary_suffix (scene ctx))
                                   selected_bones in
                if bone_pairs = [] then cancel ctx [(WARNING, NoValidPairs)]
                else remap_pairs new ctx bone_pairs obj []))"

section \<open>Swapping the keyframes of two bones\<close>

definition copy_keyframe_data :: "keyframe \<Rightarrow> keyframe" where
  "copy_keyframe_data kp =
     \<lparr>co = co kp, handle_left = handle_left kp, handle_right = handle_right kp,
      interpolation = interpolation kp, easing = easing kp,
      handle_left_type = handle_left_type kp, handle_right_type = handle_right_type kp\<rparr>"

definition apply_keyframe_data :: "keyframe \<Rightarrow> keyframe \<Rightarrow> keyframe" where
  "apply_keyframe_data kp data =
     kp\<lparr>handle_left := handle_left data, handle_right := handle_right data,
        interpolation := interpolation data, easing := easing data,
        handle_left_type := handle_left_type data,
        handle_right_type := handle_right_type data\<rparr>"

text \<open>
  \<^verbatim>\<open>kp = fc.keyframe_points.insert(data['co'][0], data['co'][1]); apply_keyframe_data(kp, data)\<close>
  on the points of one curve.
\<close>

definition insert_data :: "(real \<Rightarrow> real \<Rightarrow> keyframe) \<Rightarrow> keyframe list \<Rightarrow> keyframe \<Rightarrow> keyframe list" where
  "insert_data new kps data =
     (let kps' = kp_insert new (fst (co data)) (snd (co data)) kps;
          n = kp_index (fst (co data)) kps'
      in kps'[n := apply_keyframe_data (kps' ! n) data])"

definition insert_into :: "(real \<Rightarrow> real \<Rightarrow> keyframe) \<Rightarrow> nat \<Rightarrow> fcurve list \<Rightarrow> keyframe \<Rightarrow> fcurve list" where
  "insert_into new k fcs data =
     fcs[k := (fcs ! k)\<lparr>keyframe_points := insert_data new (keyframe_points (fcs ! k)) data\<rparr>]"

text \<open>
  One pass of the loop body for a property and an axis index. The two lists that the source
  builds before the test of lines 568 to 570 are not used afterwards.
\<close>

definition swap_channel ::
  "(real \<Rightarrow> real \<Rightarrow> keyframe) \<Rightarrow> string \<Rightarrow> string \<Rightarrow> fcurve list \<Rightarrow> string \<times> int \<Rightarrow> fcurve list" where
  "swap_channel new source_bone target_bone fcs pa =
     (let prop = fst pa; axis_index = snd pa;
          source_path = bone_path source_bone prop;
          target_path = bone_path target_bone prop
      in case find_fcurve source_path axis_index fcs of
           None \<Rightarrow> fcs
         | Some i \<Rightarrow>
            (case find_fcurve target_path axis_index fcs of
               None \<Rightarrow> fcs
             | Some j \<Rightarrow>
                let source_data = map copy_keyframe_data (keyframe_points (fcs ! i));
                    target_data = map copy_keyframe_data (keyframe_points (fcs ! j));
                    fcs1 = fcs[i := kp_clear (fcs ! i)];
                    fcs2 = fcs1[j := kp_clear (fcs1 ! j)];
                    fcs3 = foldl (insert_into new j) fcs2 source_data
                in foldl (insert_into new i) fcs3 target_data))"

definition transform_properties :: "string list" where
  "transform_properties = [''location'', ''rotation_euler'', ''rotation_quaternion'', ''scale'']"

definition transform_channels :: "(string \<times> int) list" where
  "transform_channels =
     concat (map (\<lambda>prop. map (\<lambda>axis_index. (prop, axis_index))
                    (if prop \<noteq> ''rotation_quaternion'' then [0, 1, 2] else [0, 1, 2, 3]))
               transform_properties)"

definition SwapKeyframesOperator_execute :: "(real \<Rightarrow> real \<Rightarrow> keyframe) \<Rightarrow> bpy_context \<Rightarrow> result" where
  "SwapKeyframesOperator_execute new ctx =
     (case ctx_object ctx of
        None \<Rightarrow> cancel ctx [(ERROR, NotArmature)]
      | Some obj \<Rightarrow>
          if obj_type obj \<noteq> ''ARMATURE'' then cancel ctx [(ERROR, NotArmature)]
          else (case selected_pose_bones ctx of
             None \<Rightarrow> cancel ctx [(ERROR, SelectTwoBones)]
           | Some bones \<Rightarrow>
              if length bones \<noteq> 2 then cancel ctx [(ERROR, SelectTwoBones)]
              else (case active_pose_bone ctx of
                 None \<Rightarrow> cancel ctx [(ERROR, ActiveNotSelected)]
               | Some active_bone \<Rightarrow>
                  if active_bone \<notin> set bones then cancel ctx [(ERROR, ActiveNotSelected)]
                  else
                    let source_bone = (if bones ! 1 = active_bone then bones ! 0 else bones ! 1);
                        target_bone = active_bone
                    in
                    (case (case animation_data obj of None \<Rightarrow> None | Some ad \<Rightarrow> action ad) of
                       None \<Rightarrow> cancel ctx [(ERROR, NoAnimationData)]
                     | Some fcs \<Rightarrow>
                        finish
                          (set_fcurves ctx obj
                             (foldl (swap_channel new source_bone target_bone) fcs
                                transform_channels))
                          [(INFO, Swapped source_bone target_bone)]))))"

section \<open>Observations and example data\<close>

text \<open>The F-curves of the active action of the context's object, when there is one.\<close>

definition ctx_fcurves :: "bpy_context \<Rightarrow> fcurve list option" where
  "ctx_fcurves ctx =
     (case ctx_object ctx of
        None \<Rightarrow> None
      | Some obj \<Rightarrow> (case animation_data obj of None \<Rightarrow> None | Some ad \<Rightarrow> action ad))"

text \<open>The scene properties as \<^verbatim>\<open>register()\<close> of the helpers add-on sets their defaults.\<close>

definition default_scene :: scene_props where
  "default_scene =
     \<lparr>source_x_axis = ''X+'', source_y_axis = ''Y+'', source_z_axis = ''Z+'',
      replace_all_keyframes = True,
      secondary_x_axis = ''X+'', secondary_y_axis = ''Y+'', secondary_z_axis = ''Z+'',
      secondary_replace_all_keyframes = True,
      primary_mapper = [], primary_suffix = [], secondary_mapper = [], secondary_suffix = []\<rparr>"

text \<open>A point at frame \<open>t\<close> with value \<open>v\<close> and flat handles one frame to each side.\<close>

definition flat_point :: "real \<Rightarrow> real \<Rightarrow> keyframe" where
  "flat_point t v =
     \<lparr>co = (t, v), handle_left = (t - 1, v), handle_right = (t + 1, v),
      interpolation = ''BEZIER'', easing = ''AUTO'',
      handle_left_type = ''AUTO_CLAMPED'', handle_right_type = ''AUTO_CLAMPED''\<rparr>"

definition armature :: "string list \<Rightarrow> fcurve list \<Rightarrow> bpy_object" where
  "armature bones fcs =
     \<lparr>obj_type = ''ARMATURE'', pose_bones = bones,
      animation_data = Some (AnimData (Some fcs))\<rparr>"

text \<open>An armature with one bone whose X location is keyed at frames 1 and 10.\<close>

definition flip_fcs :: "fcurve list" where
  "flip_fcs =
     [\<lparr>data_path = bone_path ''Arm'' ''location'', array_index = 0,
       keyframe_points = [flat_point 1 2, flat_point 10 (-3)]\<rparr>]"

definition flip_ctx :: bpy_context where
  "flip_ctx =
     \<lparr>ctx_object = Some (armature [''Arm''] flip_fcs),
      selected_pose_bones = Some [''Arm''], active_pose_bone = Some ''Arm'',
      scene = default_scene\<rparr>"

text \<open>
  Two selected bones of an armature that has no animation data at all
  (\<^verbatim>\<open>obj.animation_data\<close> is \<^verbatim>\<open>None\<close>).
\<close>

definition noanim_ctx :: bpy_context where
  "noanim_ctx =
     \<lparr>ctx_object = Some \<lparr>obj_type = ''ARMATURE'', pose_bones = [''Arm'', ''Arm_ik''],
                          animation_data = None\<rparr>,
      selected_pose_bones = Some [''Arm'', ''Arm_ik''], active_pose_bone = Some ''Arm_ik'',
      scene = default_scene\<lparr>primary_suffix := ''_ik''\<rparr>\<rparr>"

text \<open>An action with one curve: the X location of \<open>Arm\<close>, keyed at frame 1.\<close>

definition remap_fcs :: "fcurve list" where
  "remap_fcs =
     [\<lparr>data_path = bone_path ''Arm'' ''location'', array_index = 0,
       keyframe_points = [flat_point 1 2]\<rparr>]"

text \<open>Two selected bones and the default scene properties, whose suffix is empty.\<close>

definition unpaired_ctx :: bpy_context where
  "unpaired_ctx =
     \<lparr>ctx_object = Some (armature [''Arm'', ''Leg''] remap_fcs),
      selected_pose_bones = Some [''Arm'', ''Leg''], active_pose_bone = Some ''Leg'',
      scene = default_scene\<rparr>"

text \<open>
  The bones \<open>Arm\<close> and \<open>Arm_ik\<close> with suffix \<open>_ik\<close>, both mapper keywords empty, and a
  secondary profile that mirrors X.
\<close>

definition mirror_scene :: scene_props where
  "mirror_scene = default_scene\<lparr>secondary_x_axis := ''X-'', primary_suffix := ''_ik''\<rparr>"

definition mirror_ctx :: bpy_context where
  "mirror_ctx =
     \<lparr>ctx_object = Some (armature [''Arm'', ''Arm_ik''] remap_fcs),
      selected_pose_bones = Some [''Arm'', ''Arm_ik''], active_pose_bone = Some ''Arm_ik'',
      scene = mirror_scene\<rparr>"

subsection \<open>Well-formed actions and the exchange of two channels\<close>

text \<open>
  The data model orders the points of a channel by increasing frame; no two points of a
  channel share a frame.
\<close>

definition ordered_points :: "keyframe list \<Rightarrow> bool" where
  "ordered_points kps = sorted_wrt (\<lambda>a b. fst (co a) < fst (co b)) kps"

definition ordered_action :: "fcurve list \<Rightarrow> bool" where
  "ordered_action fcs = (\<forall>fc \<in> set fcs. ordered_points (keyframe_points fc))"

text \<open>Exchanging the keyframe points of the curves at two positions, and of two channels.\<close>

definition swap_points :: "nat \<Rightarrow> nat \<Rightarrow> fcurve list \<Rightarrow> fcurve list" where
  "swap_points i j fcs =
     fcs[i := (fcs ! i)\<lparr>keyframe_points := keyframe_points (fcs ! j)\<rparr>,
         j := (fcs ! j)\<lparr>keyframe_points := keyframe_points (fcs ! i)\<rparr>]"

definition exchange :: "string \<times> int \<Rightarrow> string \<times> int \<Rightarrow> fcurve list \<Rightarrow> fcurve list" where
  "exchange k1 k2 fcs =
     (case find_fcurve (fst k1) (snd k1) fcs of
        None \<Rightarrow> fcs
      | Some i \<Rightarrow>
         (case find_fcurve (fst k2) (snd k2) fcs of
            None \<Rightarrow> fcs
          | Some j \<Rightarrow> swap_points i j fcs))"

definition exchange_all :: "((string \<times> int) \<times> (string \<times> int)) list \<Rightarrow> fcurve list \<Rightarrow> fcurve list" where
  "exchange_all ps fcs = foldl (\<lambda>f p. exchange (fst p) (snd p) f) fcs ps"

text \<open>The two channels that one pass of the swap loop looks up.\<close>

definition channel_keys ::
  "string \<Rightarrow> string \<Rightarrow> string \<times> int \<Rightarrow> (string \<times> int) \<times> (string \<times> int)" where
  "channel_keys S T pa = ((bone_path S (fst pa), snd pa), (bone_path T (fst pa), snd pa))"

text \<open>The selected pose bones are different bones, and the channels of the action are ordered.\<close>

definition distinct_selection :: "bpy_context \<Rightarrow> bool" where
  "distinct_selection ctx =
     (case selected_pose_bones ctx of None \<Rightarrow> True | Some bones \<Rightarrow> distinct bones)"

definition ordered_ctx :: "bpy_context \<Rightarrow> bool" where
  "ordered_ctx ctx = (case ctx_fcurves ctx of None \<Rightarrow> True | Some fcs \<Rightarrow> ordered_action fcs)"

text \<open>
  Two bones: both have an X location channel, and only \<open>Hand.L\<close> has a Y scale channel.
\<close>

definition swap_fcs :: "fcurve list" where
  "swap_fcs =
     [\<lparr>data_path = bone_path ''Hand.L'' ''location'', array_index = 0,
       keyframe_points = [flat_point 1 2, flat_point 10 (-3)]\<rparr>,
      \<lparr>data_path = bone_path ''Hand.R'' ''location'', array_index = 0,
       keyframe_points = [(flat_point 5 7)\<lparr>interpolation := ''LINEAR''\<rparr>]\<rparr>,
      \<lparr>data_path = bone_path ''Hand.L'' ''scale'', array_index = 1,
       keyframe_points = [flat_point 2 1]\<rparr>]"

definition swap_ctx :: bpy_context where
  "swap_ctx =
     \<lparr>ctx_object = Some (armature [''Hand.L'', ''Hand.R''] swap_fcs),
      selected_pose_bones = Some [''Hand.L'', ''Hand.R''], active_pose_bone = Some ''Hand.R'',
      scene = default_scene\<rparr>"

subsection \<open>What the transfer loop writes\<close>

text \<open>
  A bone name without a double quote. The data paths of two different plain names never
  extend one another, so a curve of the target bone is not taken for a curve of the source.
\<close>

definition plain_name :: "string \<Rightarrow> bool" where
  \<open>plain_name name = (CHR ''"'' \<notin> set name)\<close>

text \<open>
  The frames and scaled values that the inner loop inserts for the points of a source
  curve, and the insertion of such a list into the points of a curve, in order.
\<close>

definition scaled_points :: "int \<Rightarrow> keyframe list \<Rightarrow> (real \<times> real) list" where
  "scaled_points scale kps = map (\<lambda>k. (fst (co k), snd (co k) * of_int scale)) kps"

definition insert_all :: "(real \<Rightarrow> real \<Rightarrow> keyframe) \<Rightarrow> (real \<times> real) list \<Rightarrow> keyframe list \<Rightarrow> keyframe list" where
  "insert_all new ps kps = foldl (\<lambda>acc p. kp_insert new (fst p) (snd p) acc) kps ps"

text \<open>
  What the loop body asks for when it visits a curve: \<open>None\<close> when the curve is skipped
  before any write (its path does not start with the source prefix, its index is out of
  range, or its axis label is not in the table), and otherwise the target channel (path
  and index), the scale and the points of the curve.
\<close>

type_synonym transfer = "(string \<times> int) \<times> int \<times> keyframe list"

definition transfer_of :: "string \<Rightarrow> string \<Rightarrow> string list \<Rightarrow> fcurve \<Rightarrow> transfer option" where
  "transfer_of S T axes fc =
     (if prefix (source_prefix S) (data_path fc) \<and> 0 \<le> array_index fc \<and>
         array_index fc < int (length axes)
      then map_option
             (\<lambda>js. ((bone_path T (last_component (data_path fc)), fst js), snd js, keyframe_points fc))
             (axis_mapping (axes ! nat (array_index fc)))
      else None)"

definition transfers :: "string \<Rightarrow> string \<Rightarrow> string list \<Rightarrow> fcurve list \<Rightarrow> transfer list" where
  "transfers S T axes fcs = List.map_filter (transfer_of S T axes) fcs"

text \<open>
  The effect of one such request on the F-curves: the target curve is looked up or
  created, cleared when replace-all is set, and receives the scaled points.
\<close>

definition write_channel :: "(real \<Rightarrow> real \<Rightarrow> keyframe) \<Rightarrow> bool \<Rightarrow> fcurve list \<Rightarrow> transfer \<Rightarrow> fcurve list" where
  "write_channel new replace_all fcs w =
     (let path = fst (fst w); idx = snd (fst w);
          fcs1 = (case find_fcurve path idx fcs of Some k \<Rightarrow> fcs | None \<Rightarrow> fcurves_new path idx fcs);
          k = (case find_fcurve path idx fcs of Some k \<Rightarrow> k | None \<Rightarrow> length fcs)
      in fcs1[k := (fcs1 ! k)\<lparr>keyframe_points :=
            insert_all new (scaled_points (fst (snd w)) (snd (snd w)))
              (if replace_all then [] else keyframe_points (fcs1 ! k))\<rparr>])"

text \<open>
  The relation between the F-curves at loop entry and at a later moment of the loop: the
  curves present at entry keep their positions and paths, those with the source prefix are
  unchanged, and every appended curve lacks the source prefix.
\<close>

definition extends :: "string \<Rightarrow> fcurve list \<Rightarrow> fcurve list \<Rightarrow> bool" where
  "extends S fcs0 fcs \<longleftrightarrow>
     length fcs0 \<le> length fcs \<and>
     (\<forall>i < length fcs0. data_path (fcs ! i) = data_path (fcs0 ! i) \<and>
        (prefix (source_prefix S) (data_path (fcs0 ! i)) \<longrightarrow> fcs ! i = fcs0 ! i)) \<and>
     (\<forall>i. length fcs0 \<le> i \<and> i < length fcs \<longrightarrow>
        \<not> prefix (source_prefix S) (data_path (fcs ! i)))"

text \<open>The points of one channel \<open>K\<close> after a sequence of requests.\<close>

fun after_writes ::
  "(real \<Rightarrow> real \<Rightarrow> keyframe) \<Rightarrow> bool \<Rightarrow> string \<times> int \<Rightarrow> transfer list \<Rightarrow>
   keyframe list option \<Rightarrow> keyframe list option" where
  "after_writes new ra K [] ch = ch"
| "after_writes new ra K (w # ws) ch =
     after_writes new ra K ws
       (if fst w = K
        then Some (insert_all new (scaled_points (fst (snd w)) (snd (snd w)))
                     (if ra then [] else (case ch of None \<Rightarrow> [] | Some kps \<Rightarrow> kps)))
        else ch)"

text \<open>
  The curve at position \<open>i\<close> is the only curve of the action that the loop maps to its
  target channel.
\<close>

definition sole_source :: "string \<Rightarrow> string \<Rightarrow> string list \<Rightarrow> fcurve list \<Rightarrow> nat \<Rightarrow> bool" where
  "sole_source S T axes fcs i \<longleftrightarrow>
     (\<forall>i' < length fcs. i' \<noteq> i \<longrightarrow>
        map_option fst (transfer_of S T axes (fcs ! i')) \<noteq>
        map_option fst (transfer_of S T axes (fcs ! i)))"

text \<open>
  The example of the specification: the X location of \<open>Hand\<close> keyed at frames 1 and 10,
  mapped to \<open>Y-\<close> of \<open>Foot\<close>.
\<close>

definition hand_fcs :: "fcurve list" where
  "hand_fcs =
     [\<lparr>data_path = bone_path ''Hand'' ''location'', array_index = 0,
       keyframe_points = [flat_point 1 2, flat_point 10 (-3)]\<rparr>]"

definition hand_ctx :: bpy_context where
  "hand_ctx =
     \<lparr>ctx_object = Some (armature [''Hand'', ''Foot''] hand_fcs),
      selected_pose_bones = Some [''Hand'', ''Foot''], active_pose_bone = Some ''Foot'',
      scene = default_scene\<lparr>source_x_axis := ''Y-'', source_y_axis := ''X+''\<rparr>\<rparr>"

text \<open>A target channel that already has a point at frame 5 with value 99.\<close>

definition foot_fcs :: "fcurve list" where
  "foot_fcs =
     [\<lparr>data_path = bone_path ''Hand'' ''location'', array_index = 1,
       keyframe_points = [flat_point 1 2]\<rparr>,
      \<lparr>data_path = bone_path ''Foot'' ''location'', array_index = 1,
       keyframe_points = [flat_point 5 99]\<rparr>]"

text \<open>A source channel without keyframe points.\<close>

definition idle_fcs :: "fcurve list" where
  "idle_fcs =
     [\<lparr>data_path = bone_path ''Hand'' ''location'', array_index = 0, keyframe_points = []\<rparr>,
      \<lparr>data_path = bone_path ''Foot'' ''location'', array_index = 0,
       keyframe_points = [flat_point 5 99]\<rparr>]"

subsection \<open>Repeating the transfer\<close>

text \<open>
  The curve has a point at frame \<open>t\<close> where \<open>insert\<close> looks for it: an insert at \<open>t\<close>
  overwrites a value and adds no point.
\<close>

fun present :: "real \<Rightarrow> keyframe list \<Rightarrow> bool" where
  "present t [] = False"
| "present t (k # ks) = (if fst (co k) = t then True else if t < fst (co k) then False else present t ks)"

text \<open>The frames and values that a sequence of requests inserts into the channel \<open>K\<close>.\<close>

definition hit_points :: "string \<times> int \<Rightarrow> transfer list \<Rightarrow> (real \<times> real) list" where
  "hit_points K ws =
     concat (map (\<lambda>w. scaled_points (fst (snd w)) (snd (snd w))) (filter (\<lambda>w. fst w = K) ws))"

text \<open>The names of the selected bones are plain.\<close>

definition plain_selection :: "bpy_context \<Rightarrow> bool" where
  "plain_selection ctx =
     (case selected_pose_bones ctx of None \<Rightarrow> True | Some bones \<Rightarrow> list_all plain_name bones)"

text \<open>A channel of the active action of the context's object.\<close>

definition ctx_channel :: "string \<Rightarrow> int \<Rightarrow> bpy_context \<Rightarrow> keyframe list option" where
  "ctx_channel path idx ctx =
     (case ctx_fcurves ctx of None \<Rightarrow> None | Some fcs \<Rightarrow> channel path idx fcs)"

text \<open>The axis labels and the replace-all flag that the copy operator reads.\<close>

definition profile_of :: "bool \<Rightarrow> scene_props \<Rightarrow> string list \<times> bool" where
  "profile_of use_secondary sc =
     (if use_secondary then secondary_profile sc else primary_profile sc)"

text \<open>
  Copying without replace-all onto a target channel that already has a point at another
  frame.
\<close>

definition merge_ctx :: bpy_context where
  "merge_ctx =
     \<lparr>ctx_object = Some (armature [''Hand'', ''Foot''] foot_fcs),
      selected_pose_bones = Some [''Hand'', ''Foot''], active_pose_bone = Some ''Foot'',
      scene = default_scene\<lparr>replace_all_keyframes := False\<rparr>\<rparr>"

section \<open>Properties\<close>

subsection \<open>Looking up a curve\<close>

lemma find_fcurve_Some:
  "find_fcurve p j fcs = Some k \<Longrightarrow>
     k < length fcs \<and> data_path (fcs ! k) = p \<and> array_index (fcs ! k) = j"
  by (induction fcs arbitrary: k) (auto split: if_splits)

lemma find_fcurve_keys:
  "map data_path fcs = map data_path fcs' \<Longrightarrow> map array_index fcs = map array_index fcs' \<Longrightarrow>
   find_fcurve p j fcs = find_fcurve p j fcs'"
proof (induction fcs arbitrary: fcs')
  case Nil
  then show ?case by simp
next
  case (Cons a fcs)
  then obtain b gs where "fcs' = b # gs" by (cases fcs') auto
  with Cons show ?case by auto
qed

lemma find_fcurve_update:
  "k < length fcs \<Longrightarrow> data_path c = data_path (fcs ! k) \<Longrightarrow>
   array_index c = array_index (fcs ! k) \<Longrightarrow>
   find_fcurve p j (fcs[k := c]) = find_fcurve p j fcs"
  by (rule find_fcurve_keys) (simp_all add: map_update list_update_same_conv)

subsection \<open>Flip\<close>

text \<open>
  Claim C7. When the operator's checks on the object, the active bone and the action pass,
  flipping a channel that the action has finishes, and the channel afterwards has as many
  points as before, each with the same frame and the same handle abscissas and with its
  value and both handle ordinates negated. When the action has no such channel the
  operator is cancelled with the warning that no keyframes were found, and the context is
  the one it was given.
\<close>

theorem flip_negates_channel:
  assumes "ctx_object ctx = Some obj" and "obj_type obj = ''ARMATURE''"
    and "active_pose_bone ctx = Some b"
    and "animation_data obj = Some (AnimData (Some fcs))"
  shows "case channel (bone_path b property) axis fcs of
           None \<Rightarrow>
             FlipKeyframeAxisOperator_execute property axis ctx = cancel ctx [(WARNING, NoKeyframesFor property axis)]
         | Some kps \<Rightarrow>
             res_ret (FlipKeyframeAxisOperator_execute property axis ctx) = Returned FINISHED \<and>
             (\<exists>fcs' kps'.
                ctx_fcurves (res_ctx (FlipKeyframeAxisOperator_execute property axis ctx)) = Some fcs' \<and>
                channel (bone_path b property) axis fcs' = Some kps' \<and>
                length kps' = length kps \<and>
                (\<forall>n < length kps.
                   co (kps' ! n) = (fst (co (kps ! n)), - snd (co (kps ! n))) \<and>
                   handle_left (kps' ! n) =
                     (fst (handle_left (kps ! n)), - snd (handle_left (kps ! n))) \<and>
                   handle_right (kps' ! n) =
                     (fst (handle_right (kps ! n)), - snd (handle_right (kps ! n)))))"
proof (cases "find_fcurve (bone_path b property) axis fcs")
  case None
  with assms show ?thesis by (simp add: channel_def FlipKeyframeAxisOperator_execute_def)
next
  case (Some k)
  from find_fcurve_Some[OF Some] have k: "k < length fcs" by simp
  let ?c = "fcurve_update
              ((fcs ! k)\<lparr>keyframe_points := map flip_point (keyframe_points (fcs ! k))\<rparr>)"
  have f: "find_fcurve (bone_path b property) axis (fcs[k := ?c]) = Some k"
    using Some k by (simp add: find_fcurve_update fcurve_update_def)
  show ?thesis using assms Some k f
    by (simp add: channel_def FlipKeyframeAxisOperator_execute_def ctx_fcurves_def set_fcurves_def finish_def
         fcurve_update_def flip_point_def)
qed

theorem flip_negates_channel_witness:
  "ctx_object flip_ctx = Some (armature [''Arm''] flip_fcs) \<and>
   obj_type (armature [''Arm''] flip_fcs) = ''ARMATURE'' \<and>
   active_pose_bone flip_ctx = Some ''Arm'' \<and>
   animation_data (armature [''Arm''] flip_fcs) = Some (AnimData (Some flip_fcs)) \<and>
   res_ret (FlipKeyframeAxisOperator_execute ''location'' 0 flip_ctx) = Returned FINISHED \<and>
   map_option (map co)
     (channel (bone_path ''Arm'' ''location'') 0
        (the (ctx_fcurves (res_ctx (FlipKeyframeAxisOperator_execute ''location'' 0 flip_ctx))))) =
     Some [(1, -2), (10, 3)]"
  using flip_negates_channel[of flip_ctx "armature [''Arm''] flip_fcs" "''Arm''" flip_fcs
      "''location''" 0]
  by (simp add: flip_ctx_def flip_fcs_def armature_def ctx_fcurves_def channel_def
       flat_point_def bone_path_def FlipKeyframeAxisOperator_execute_def finish_def set_fcurves_def
       fcurve_update_def flip_point_def)

subsection \<open>Missing animation data\<close>

text \<open>
  Claim C4. The claim asks for a reported error and a cancelled operator whenever the object
  has no animation data or no active action. On an armature without animation data the
  copy operator and the remap operator do not get that far: reading
  \<^verbatim>\<open>obj.animation_data.action\<close> raises \<^verbatim>\<open>AttributeError\<close> before any report is made, and
  the copy-all-axes operator is left by the \<^verbatim>\<open>RuntimeError\<close> of its first call. The
  swap operator, which tests \<^verbatim>\<open>obj.animation_data\<close> first, reports the error and is
  cancelled on the same context. No channel is changed in either case.
\<close>

theorem copy_without_animation_data:
  "CopyBoneKeyframesOperator_execute new axis use_secondary noanim_ctx = raise AttributeError noanim_ctx [] \<and>
   CopyAllAxesKeyframesOperator_execute new use_secondary noanim_ctx = raise RuntimeError noanim_ctx [] \<and>
   RemapAllBonesOperator_execute new noanim_ctx = raise AttributeError noanim_ctx [] \<and>
   SwapKeyframesOperator_execute new noanim_ctx = cancel noanim_ctx [(ERROR, NoAnimationData)]"
  by (simp add: CopyBoneKeyframesOperator_execute_def CopyAllAxesKeyframesOperator_execute_def
        RemapAllBonesOperator_execute_def SwapKeyframesOperator_execute_def noanim_ctx_def raise_def
        default_scene_def primary_profile_def secondary_profile_def select_profile_def
        pose_bones_get_def slice_to_neg_def suffix_def split: prod.splits)

text \<open>With animation data but no active action the copy operator reports the error.\<close>

lemma copy_without_action:
  assumes "ctx_object ctx = Some obj" and "obj_type obj = ''ARMATURE''"
    and "selected_pose_bones ctx = Some [a, b]" and "active_pose_bone ctx = Some b"
    and "animation_data obj = Some (AnimData None)"
  shows "CopyBoneKeyframesOperator_execute new axis use_secondary ctx = cancel ctx [(ERROR, NoAnimationData)]"
  using assms by (simp add: CopyBoneKeyframesOperator_execute_def split: prod.splits)

subsection \<open>Pairing bones by suffix\<close>

text \<open>
  For a suffix that is not empty, the pairs are the \<open>(s, t)\<close> with \<open>t\<close> selected,
  \<open>t = s @ sfx\<close>, and \<open>s\<close> a pose bone that is selected too.
\<close>

lemma pair_bones_nonempty_suffix:
  "sfx \<noteq> [] \<Longrightarrow>
   (s, t) \<in> set (pair_bones obj sel sfx bones) \<longleftrightarrow>
     t \<in> set bones \<and> t = s @ sfx \<and> s \<in> set (pose_bones obj) \<and> s \<in> set sel"
  by (induction bones)
     (auto simp: pose_bones_get_def slice_to_neg_def suffix_def split: if_splits)

text \<open>
  Claim C6. With the empty suffix, which is the registered default, every selected bone's
  name ends with the suffix and its name without the suffix is the name itself, a selected
  pose bone. The operator computes \<^verbatim>\<open>bone.name[:-0]\<close>, the empty string, as the base name,
  finds no pose bone of that name, forms no pair and is cancelled with the warning that no
  valid pairs were found.
\<close>

theorem empty_suffix_forms_no_pair:
  "primary_suffix (scene unpaired_ctx) = [] \<and>
   suffix (primary_suffix (scene unpaired_ctx)) ''Arm'' \<and>
   ''Arm'' \<in> set (pose_bones (armature [''Arm'', ''Leg''] remap_fcs)) \<and>
   pair_bones (armature [''Arm'', ''Leg''] remap_fcs) [''Arm'', ''Leg''] [] [''Arm'', ''Leg''] = [] \<and>
   RemapAllBonesOperator_execute new unpaired_ctx = cancel unpaired_ctx [(WARNING, NoValidPairs)]"
  by (simp add: RemapAllBonesOperator_execute_def unpaired_ctx_def default_scene_def armature_def
        pose_bones_get_def slice_to_neg_def)

subsection \<open>Choice of the mapping profile\<close>

text \<open>
  Claim C5, as stated, asks that the secondary profile be used only for a keyword that is
  not empty. The operator tests \<^verbatim>\<open>secondary_mapper in source_bone.name\<close>, which holds for
  the empty keyword: with both keywords empty and a secondary profile that maps X to
  \<open>X-\<close>, remapping \<open>Arm\<close> onto \<open>Arm_ik\<close> negates the value.
\<close>

theorem empty_keyword_selects_secondary:
  "secondary_mapper mirror_scene = [] \<and>
   select_profile mirror_scene ''Arm'' = secondary_profile mirror_scene \<and>
   secondary_profile mirror_scene \<noteq> primary_profile mirror_scene \<and>
   map_option (map co)
     (channel (bone_path ''Arm_ik'' ''location'') 0
        (the (ctx_fcurves (res_ctx (RemapAllBonesOperator_execute flat_point mirror_ctx))))) = Some [(1, -2)]"
  by (simp add: RemapAllBonesOperator_execute_def mirror_ctx_def mirror_scene_def default_scene_def armature_def
        remap_fcs_def pose_bones_get_def slice_to_neg_def suffix_def select_profile_def
        secondary_profile_def primary_profile_def copy_fcurves_def copy_fcurve_def
        source_prefix_def axis_mapping_def fcurves_new_def kp_clear_def copy_keyframe_def
        flat_point_def finish_def ctx_fcurves_def channel_def Let_def
        bone_path_def last_component_def)

text \<open>
  Claim C5, amended. For every pair that the remap operator processes on an object with an
  active action, the transfer of that pair runs with the secondary profile exactly when
  the secondary mapper keyword is a substring of the source bone's name, the empty keyword
  included, and with the primary profile otherwise.
\<close>

theorem remap_pair_profile:
  assumes "animation_data obj = Some (AnimData (Some fcs))"
  shows "remap_pairs new ctx ((source_bone, target_bone) # pairs) obj lg =
           (let profile = (if sublist (secondary_mapper (scene ctx)) source_bone
                           then secondary_profile (scene ctx)
                           else primary_profile (scene ctx));
                st = copy_fcurves new source_bone target_bone (fst profile) (snd profile) (fcs, lg)
            in remap_pairs new ctx pairs
                 (obj\<lparr>animation_data := Some (AnimData (Some (fst st)))\<rparr>) (snd st))"
  using assms by (simp add: select_profile_def Let_def split: prod.splits)

theorem remap_pair_profile_witness:
  "animation_data (armature [''Arm'', ''Arm_ik''] remap_fcs) = Some (AnimData (Some remap_fcs)) \<and>
   sublist (secondary_mapper (scene mirror_ctx)) ''Arm'' \<and>
   remap_pairs flat_point mirror_ctx [(''Arm'', ''Arm_ik'')]
       (armature [''Arm'', ''Arm_ik''] remap_fcs) [] =
     remap_pairs flat_point mirror_ctx []
       ((armature [''Arm'', ''Arm_ik''] remap_fcs)\<lparr>animation_data := Some (AnimData (Some (fst
          (copy_fcurves flat_point ''Arm'' ''Arm_ik'' [''X-'', ''Y+'', ''Z+''] True (remap_fcs, [])))))\<rparr>)
       (snd (copy_fcurves flat_point ''Arm'' ''Arm_ik'' [''X-'', ''Y+'', ''Z+''] True (remap_fcs, [])))"
  using remap_pair_profile[of "armature [''Arm'', ''Arm_ik''] remap_fcs" remap_fcs flat_point
      mirror_ctx "''Arm''" "''Arm_ik''" "[]" "[]"]
  by (simp add: armature_def mirror_ctx_def mirror_scene_def default_scene_def
        secondary_profile_def Let_def)

subsection \<open>Swap\<close>

lemma copy_keyframe_data_id [simp]: "copy_keyframe_data kp = kp"
  by (simp add: copy_keyframe_data_def)

lemma map_copy_keyframe_data [simp]: "map copy_keyframe_data kps = kps"
  by (induction kps) simp_all

lemma kp_insert_snoc:
  "\<forall>k \<in> set kps. fst (co k) < t \<Longrightarrow> kp_insert new t v kps = kps @ [(new t v)\<lparr>co := (t, v)\<rparr>]"
  by (induction kps) auto

lemma kp_index_snoc:
  "\<forall>k \<in> set kps. fst (co k) < t \<Longrightarrow> fst (co x) = t \<Longrightarrow> kp_index t (kps @ [x]) = length kps"
  by (induction kps) auto

lemma insert_data_snoc:
  "\<forall>k \<in> set kps. fst (co k) < fst (co d) \<Longrightarrow> insert_data new kps d = kps @ [d]"
  by (simp add: insert_data_def kp_insert_snoc kp_index_snoc Let_def apply_keyframe_data_def)

lemma foldl_insert_data_ordered:
  "ordered_points (xs @ ys) \<Longrightarrow> foldl (insert_data new) xs ys = xs @ ys"
proof (induction ys arbitrary: xs)
  case Nil
  then show ?case by simp
next
  case (Cons y ys)
  from Cons.prems have "\<forall>k \<in> set xs. fst (co k) < fst (co y)"
    by (auto simp: ordered_points_def sorted_wrt_append)
  then have "insert_data new xs y = xs @ [y]" by (rule insert_data_snoc)
  moreover from Cons.prems have "ordered_points ((xs @ [y]) @ ys)" by simp
  ultimately show ?case using Cons.IH[of "xs @ [y]"] by simp
qed

lemma foldl_insert_into:
  "k < length fcs \<Longrightarrow>
   foldl (insert_into new k) fcs ds =
     fcs[k := (fcs ! k)\<lparr>keyframe_points := foldl (insert_data new) (keyframe_points (fcs ! k)) ds\<rparr>]"
  by (induction ds arbitrary: fcs) (simp_all add: insert_into_def)

lemma swap_channel_exchange:
  assumes ord: "ordered_action fcs" and ne: "bone_path S p \<noteq> bone_path T p"
  shows "swap_channel new S T fcs (p, a) = exchange (bone_path S p, a) (bone_path T p, a) fcs"
proof (cases "find_fcurve (bone_path S p) a fcs")
  case None
  then show ?thesis by (simp add: swap_channel_def exchange_def)
next
  case (Some i)
  note fi = find_fcurve_Some[OF Some]
  show ?thesis
  proof (cases "find_fcurve (bone_path T p) a fcs")
    case None
    with Some show ?thesis by (simp add: swap_channel_def exchange_def)
  next
    case (Some j)
    note fj = find_fcurve_Some[OF Some]
    from fi fj ne have ij: "i \<noteq> j" by auto
    from ord fi fj have oi: "ordered_points (keyframe_points (fcs ! i))"
      and oj: "ordered_points (keyframe_points (fcs ! j))"
      by (auto simp: ordered_action_def)
    have fi': "foldl (insert_data new) [] (keyframe_points (fcs ! i)) = keyframe_points (fcs ! i)"
      using foldl_insert_data_ordered[of "[]"] oi by simp
    have fj': "foldl (insert_data new) [] (keyframe_points (fcs ! j)) = keyframe_points (fcs ! j)"
      using foldl_insert_data_ordered[of "[]"] oj by simp
    show ?thesis
      using \<open>find_fcurve (bone_path S p) a fcs = Some i\<close> Some fi fj ij fi' fj'
      by (simp add: swap_channel_def exchange_def Let_def foldl_insert_into kp_clear_def
            swap_points_def list_update_swap[of i j])
  qed
qed


lemma length_swap_points [simp]: "length (swap_points i j fcs) = length fcs"
  by (simp add: swap_points_def)

lemma paths_swap_points [simp]:
  "i < length fcs \<Longrightarrow> j < length fcs \<Longrightarrow> map data_path (swap_points i j fcs) = map data_path fcs"
  by (rule nth_equalityI) (simp_all add: swap_points_def nth_list_update)

lemma indices_swap_points [simp]:
  "i < length fcs \<Longrightarrow> j < length fcs \<Longrightarrow>
   map array_index (swap_points i j fcs) = map array_index fcs"
  by (rule nth_equalityI) (simp_all add: swap_points_def nth_list_update)

lemma find_fcurve_swap_points [simp]:
  "i < length fcs \<Longrightarrow> j < length fcs \<Longrightarrow>
   find_fcurve p a (swap_points i j fcs) = find_fcurve p a fcs"
  by (rule find_fcurve_keys) simp_all

lemma find_fcurve_exchange [simp]:
  "find_fcurve p a (exchange k1 k2 fcs) = find_fcurve p a fcs"
  by (auto simp: exchange_def split: option.splits dest!: find_fcurve_Some)

lemma swap_points_twice:
  "i < length fcs \<Longrightarrow> j < length fcs \<Longrightarrow> i \<noteq> j \<Longrightarrow>
   swap_points i j (swap_points i j fcs) = fcs"
  by (rule nth_equalityI) (auto simp: swap_points_def nth_list_update)

lemma swap_points_commute:
  "i < length fcs \<Longrightarrow> j < length fcs \<Longrightarrow> m < length fcs \<Longrightarrow> n < length fcs \<Longrightarrow>
   i \<noteq> m \<Longrightarrow> i \<noteq> n \<Longrightarrow> j \<noteq> m \<Longrightarrow> j \<noteq> n \<Longrightarrow>
   swap_points i j (swap_points m n fcs) = swap_points m n (swap_points i j fcs)"
  by (rule nth_equalityI) (auto simp: swap_points_def nth_list_update)

lemma exchange_twice:
  "k1 \<noteq> k2 \<Longrightarrow> exchange k1 k2 (exchange k1 k2 fcs) = fcs"
proof (cases "find_fcurve (fst k1) (snd k1) fcs")
  case None
  then show ?thesis by (simp add: exchange_def)
next
  case (Some i)
  assume ne: "k1 \<noteq> k2"
  show ?thesis
  proof (cases "find_fcurve (fst k2) (snd k2) fcs")
    case None
    with Some show ?thesis by (simp add: exchange_def)
  next
    case (Some j)
    from find_fcurve_Some[OF \<open>find_fcurve (fst k1) (snd k1) fcs = Some i\<close>]
      find_fcurve_Some[OF Some] ne
    have "i < length fcs" "j < length fcs" "i \<noteq> j" by (auto simp: prod_eq_iff)
    then show ?thesis
      using Some \<open>find_fcurve (fst k1) (snd k1) fcs = Some i\<close>
      by (simp add: exchange_def swap_points_twice)
  qed
qed

lemma exchange_commute:
  assumes "k1 \<noteq> k3" "k1 \<noteq> k4" "k2 \<noteq> k3" "k2 \<noteq> k4"
  shows "exchange k1 k2 (exchange k3 k4 fcs) = exchange k3 k4 (exchange k1 k2 fcs)"
proof -
  have l: "exchange k1 k2 (exchange k3 k4 fcs) =
      (case find_fcurve (fst k1) (snd k1) fcs of
         None \<Rightarrow> exchange k3 k4 fcs
       | Some i \<Rightarrow> (case find_fcurve (fst k2) (snd k2) fcs of
            None \<Rightarrow> exchange k3 k4 fcs
          | Some j \<Rightarrow> swap_points i j (exchange k3 k4 fcs)))"
    by (simp add: exchange_def[of k1 k2 "exchange k3 k4 fcs"] split: option.splits)
  have r: "exchange k3 k4 (exchange k1 k2 fcs) =
      (case find_fcurve (fst k3) (snd k3) fcs of
         None \<Rightarrow> exchange k1 k2 fcs
       | Some m \<Rightarrow> (case find_fcurve (fst k4) (snd k4) fcs of
            None \<Rightarrow> exchange k1 k2 fcs
          | Some n \<Rightarrow> swap_points m n (exchange k1 k2 fcs)))"
    by (simp add: exchange_def[of k3 k4 "exchange k1 k2 fcs"] split: option.splits)
  show ?thesis
  proof (cases "find_fcurve (fst k1) (snd k1) fcs")
    case None
    then show ?thesis unfolding l r by (simp add: exchange_def split: option.splits)
  next
    case a: (Some i)
    show ?thesis
    proof (cases "find_fcurve (fst k2) (snd k2) fcs")
      case None
      with a show ?thesis unfolding l r by (simp add: exchange_def split: option.splits)
    next
      case b: (Some j)
      show ?thesis
      proof (cases "find_fcurve (fst k3) (snd k3) fcs")
        case None
        with a b show ?thesis unfolding l r by (simp add: exchange_def)
      next
        case c: (Some m)
        show ?thesis
        proof (cases "find_fcurve (fst k4) (snd k4) fcs")
          case None
          with a b c show ?thesis unfolding l r by (simp add: exchange_def)
        next
          case d: (Some n)
          from find_fcurve_Some[OF a] find_fcurve_Some[OF b] find_fcurve_Some[OF c]
            find_fcurve_Some[OF d] assms
          have "i < length fcs" "j < length fcs" "m < length fcs" "n < length fcs"
            "i \<noteq> m" "i \<noteq> n" "j \<noteq> m" "j \<noteq> n"
            by (auto simp: prod_eq_iff)
          then have "swap_points i j (swap_points m n fcs) = swap_points m n (swap_points i j fcs)"
            by (rule swap_points_commute)
          with a b c d show ?thesis unfolding l r by (simp add: exchange_def)
        qed
      qed
    qed
  qed
qed

lemma exchange_all_commute:
  "\<forall>p \<in> set ps. k1 \<noteq> fst p \<and> k1 \<noteq> snd p \<and> k2 \<noteq> fst p \<and> k2 \<noteq> snd p \<Longrightarrow>
   exchange k1 k2 (exchange_all ps fcs) = exchange_all ps (exchange k1 k2 fcs)"
proof (induction ps arbitrary: fcs)
  case Nil
  then show ?case by (simp add: exchange_all_def)
next
  case (Cons p ps)
  have "exchange k1 k2 (exchange_all (p # ps) fcs) =
        exchange k1 k2 (exchange_all ps (exchange (fst p) (snd p) fcs))"
    by (simp add: exchange_all_def)
  also have "\<dots> = exchange_all ps (exchange k1 k2 (exchange (fst p) (snd p) fcs))"
    using Cons by simp
  also have "exchange k1 k2 (exchange (fst p) (snd p) fcs) =
             exchange (fst p) (snd p) (exchange k1 k2 fcs)"
    using Cons.prems by (intro exchange_commute) auto
  finally show ?case by (simp add: exchange_all_def)
qed

lemma exchange_all_twice:
  "distinct (concat (map (\<lambda>p. [fst p, snd p]) ps)) \<Longrightarrow>
   exchange_all ps (exchange_all ps fcs) = fcs"
proof (induction ps arbitrary: fcs)
  case Nil
  then show ?case by (simp add: exchange_all_def)
next
  case (Cons p ps)
  from Cons.prems have ne: "fst p \<noteq> snd p"
    and away: "\<forall>q \<in> set ps. fst p \<noteq> fst q \<and> fst p \<noteq> snd q \<and> snd p \<noteq> fst q \<and> snd p \<noteq> snd q"
    and rest: "distinct (concat (map (\<lambda>p. [fst p, snd p]) ps))"
    by auto
  have "exchange_all (p # ps) (exchange_all (p # ps) fcs) =
        exchange_all ps (exchange (fst p) (snd p) (exchange_all ps (exchange (fst p) (snd p) fcs)))"
    by (simp add: exchange_all_def)
  also have "\<dots> = exchange_all ps (exchange_all ps
                      (exchange (fst p) (snd p) (exchange (fst p) (snd p) fcs)))"
    using away by (simp add: exchange_all_commute)
  also have "\<dots> = exchange_all ps (exchange_all ps fcs)"
    using ne by (simp add: exchange_twice)
  also have "\<dots> = fcs" using rest by (rule Cons.IH)
  finally show ?case .
qed


lemma bone_path_same_prop: "bone_path a p = bone_path b p \<longleftrightarrow> a = b"
  by (simp add: bone_path_def)

lemma bone_path_same_bone: "bone_path a p = bone_path a q \<longleftrightarrow> p = q"
  by (simp add: bone_path_def)

lemma bone_path_prop_eq:
  assumes "p \<in> set transform_properties" "q \<in> set transform_properties"
    and "bone_path a p = bone_path b q"
  shows "p = q"
proof (rule ccontr)
  assume ne: "p \<noteq> q"
  from assms(3) have e: "rev (bone_path a p) = rev (bone_path b q)" by simp
  from assms(1,2) ne e show False
    by (auto simp: transform_properties_def bone_path_def)
qed


lemma transform_channels_prop:
  "pa \<in> set transform_channels \<Longrightarrow> fst pa \<in> set transform_properties"
  by (auto simp: transform_channels_def transform_properties_def)

lemma distinct_transform_channels: "distinct transform_channels"
  by (simp add: transform_channels_def transform_properties_def)

lemma ordered_action_nth:
  "ordered_action fcs \<longleftrightarrow> (\<forall>n < length fcs. ordered_points (keyframe_points (fcs ! n)))"
  by (simp add: ordered_action_def all_set_conv_all_nth)

lemma ordered_action_swap_points:
  "ordered_action fcs \<Longrightarrow> i < length fcs \<Longrightarrow> j < length fcs \<Longrightarrow>
   ordered_action (swap_points i j fcs)"
  by (auto simp: ordered_action_nth swap_points_def nth_list_update)

lemma ordered_action_exchange:
  "ordered_action fcs \<Longrightarrow> ordered_action (exchange k1 k2 fcs)"
  by (auto simp: exchange_def ordered_action_swap_points split: option.splits
        dest!: find_fcurve_Some)

lemma swap_loop_exchange_all:
  "ordered_action fcs \<Longrightarrow> S \<noteq> T \<Longrightarrow>
   foldl (swap_channel new S T) fcs pas = exchange_all (map (channel_keys S T) pas) fcs"
proof (induction pas arbitrary: fcs)
  case Nil
  then show ?case by (simp add: exchange_all_def)
next
  case (Cons pa pas)
  have "swap_channel new S T fcs pa =
        exchange (bone_path S (fst pa), snd pa) (bone_path T (fst pa), snd pa) fcs"
    using swap_channel_exchange[of fcs S "fst pa" T new "snd pa"] Cons.prems
    by (simp add: bone_path_same_prop)
  moreover have "ordered_action (exchange (bone_path S (fst pa), snd pa)
                                   (bone_path T (fst pa), snd pa) fcs)"
    using Cons.prems by (simp add: ordered_action_exchange)
  ultimately show ?case using Cons.IH Cons.prems(2)
    by (simp add: exchange_all_def channel_keys_def)
qed

lemma set_channel_keys:
  "k \<in> set (concat (map (\<lambda>p. [fst p, snd p]) (map (channel_keys S T) pas))) \<longleftrightarrow>
     (\<exists>q \<in> set pas. k = (bone_path S (fst q), snd q) \<or> k = (bone_path T (fst q), snd q))"
  by (auto simp: channel_keys_def)

lemma distinct_channel_keys:
  "distinct pas \<Longrightarrow> \<forall>pa \<in> set pas. fst pa \<in> set transform_properties \<Longrightarrow> S \<noteq> T \<Longrightarrow>
   distinct (concat (map (\<lambda>p. [fst p, snd p]) (map (channel_keys S T) pas)))"
proof (induction pas)
  case Nil
  then show ?case by simp
next
  case (Cons pa pas)
  let ?rest = "concat (map (\<lambda>p. [fst p, snd p]) (map (channel_keys S T) pas))"
  have away: "(bone_path b (fst pa), snd pa) \<noteq> (bone_path c (fst q), snd q)"
    if q: "q \<in> set pas" and bc: "b = S \<or> b = T" "c = S \<or> c = T" for q b c
  proof
    assume e: "(bone_path b (fst pa), snd pa) = (bone_path c (fst q), snd q)"
    from q Cons.prems have qp: "fst q \<in> set transform_properties"
      and pp: "fst pa \<in> set transform_properties" and ne: "pa \<noteq> q"
      by auto
    from e have "fst pa = fst q" using bone_path_prop_eq[OF pp qp] by blast
    with e ne show False by (simp add: prod_eq_iff)
  qed
  have d: "distinct ?rest" using Cons by simp
  have 1: "(bone_path S (fst pa), snd pa) \<notin> set ?rest"
    unfolding set_channel_keys using away by blast
  have 2: "(bone_path T (fst pa), snd pa) \<notin> set ?rest"
    unfolding set_channel_keys using away by blast
  have 3: "(bone_path S (fst pa), snd pa) \<noteq> (bone_path T (fst pa), snd pa)"
    using Cons.prems(3) by (simp add: bone_path_same_prop)
  have "concat (map (\<lambda>p. [fst p, snd p]) (map (channel_keys S T) (pa # pas))) =
        (bone_path S (fst pa), snd pa) # (bone_path T (fst pa), snd pa) # ?rest"
    by (simp add: channel_keys_def)
  with d 1 2 3 show ?case by simp
qed

lemma swap_loop_twice:
  assumes "ordered_action fcs" and "S \<noteq> T"
  shows "foldl (swap_channel new S T) (foldl (swap_channel new S T) fcs transform_channels)
           transform_channels = fcs"
proof -
  let ?ps = "map (channel_keys S T) transform_channels"
  have 1: "foldl (swap_channel new S T) fcs transform_channels = exchange_all ?ps fcs"
    using assms by (rule swap_loop_exchange_all)
  have "ordered_action (exchange_all ps fcs)" for ps
    using assms(1) by (induction ps arbitrary: fcs)
      (simp_all add: exchange_all_def ordered_action_exchange)
  then have 2: "foldl (swap_channel new S T) (exchange_all ?ps fcs) transform_channels =
             exchange_all ?ps (exchange_all ?ps fcs)"
    using assms(2) by (intro swap_loop_exchange_all)
  have "distinct (concat (map (\<lambda>p. [fst p, snd p]) ?ps))"
    using distinct_transform_channels transform_channels_prop assms(2)
    by (intro distinct_channel_keys) auto
  then show ?thesis unfolding 1 2 by (rule exchange_all_twice)
qed


lemma SwapKeyframesOperator_execute_cases:
  obtains (cancelled) m where "SwapKeyframesOperator_execute new ctx = cancel ctx [(ERROR, m)]"
  | (finished) obj a b S T fcs where
      "ctx_object ctx = Some obj" "obj_type obj = ''ARMATURE''"
      "selected_pose_bones ctx = Some [a, b]" "active_pose_bone ctx = Some T"
      "(S = a \<and> T = b) \<or> (S = b \<and> T = a) \<or> (a = b \<and> S = a \<and> T = a)"
      "animation_data obj = Some (AnimData (Some fcs))"
      "SwapKeyframesOperator_execute new ctx =
         finish (set_fcurves ctx obj (foldl (swap_channel new S T) fcs transform_channels))
           [(INFO, Swapped S T)]"
proof (cases "ctx_object ctx")
  case None
  then show ?thesis by (intro cancelled[of NotArmature]) (simp add: SwapKeyframesOperator_execute_def)
next
  case obj: (Some obj)
  show ?thesis
  proof (cases "obj_type obj = ''ARMATURE''")
    case False
    with obj show ?thesis by (intro cancelled[of NotArmature]) (simp add: SwapKeyframesOperator_execute_def)
  next
    case arm: True
    show ?thesis
    proof (cases "selected_pose_bones ctx")
      case None
      with obj arm show ?thesis
        by (intro cancelled[of SelectTwoBones]) (simp add: SwapKeyframesOperator_execute_def)
    next
      case sel: (Some bones)
      show ?thesis
      proof (cases "length bones = 2")
        case False
        with obj arm sel show ?thesis
          by (intro cancelled[of SelectTwoBones]) (simp add: SwapKeyframesOperator_execute_def)
      next
        case True
        then obtain a b where bones: "bones = [a, b]"
          by (cases bones; cases "tl bones") auto
        show ?thesis
        proof (cases "active_pose_bone ctx")
          case None
          with obj arm sel bones show ?thesis
            by (intro cancelled[of ActiveNotSelected]) (simp add: SwapKeyframesOperator_execute_def)
        next
          case act: (Some T)
          show ?thesis
          proof (cases "T \<in> set bones")
            case False
            with obj arm sel bones act show ?thesis
              by (intro cancelled[of ActiveNotSelected]) (simp add: SwapKeyframesOperator_execute_def)
          next
            case inb: True
            show ?thesis
            proof (cases "case animation_data obj of None \<Rightarrow> None | Some ad \<Rightarrow> action ad")
              case None
              with obj arm sel bones act inb show ?thesis
                by (intro cancelled[of NoAnimationData]) (simp add: SwapKeyframesOperator_execute_def)
            next
              case (Some fcs)
              then have ad: "animation_data obj = Some (AnimData (Some fcs))"
                by (cases "animation_data obj"; cases "the (animation_data obj)") auto
              let ?S = "if bones ! 1 = T then bones ! 0 else bones ! 1"
              have "SwapKeyframesOperator_execute new ctx =
                 finish (set_fcurves ctx obj (foldl (swap_channel new ?S T) fcs transform_channels))
                   [(INFO, Swapped ?S T)]"
                using obj arm sel bones act inb ad by (simp add: SwapKeyframesOperator_execute_def)
              moreover have "(?S = a \<and> T = b) \<or> (?S = b \<and> T = a) \<or> (a = b \<and> ?S = a \<and> T = a)"
                using inb bones by auto
              ultimately show ?thesis using obj arm sel bones act ad
                by (intro finished[of obj a b T ?S fcs]) simp_all
            qed
          qed
        qed
      qed
    qed
  qed
qed

text \<open>
  Claim C2. On a context whose selected bones are different bones and whose channels are
  ordered by frame, swapping twice gives back the context the first swap started from:
  every curve of the action, hence every channel of both bones, has again the points it
  had, with their frames, values, handles, interpolation, easing and handle types.
\<close>

theorem swap_twice_restores:
  assumes "distinct_selection ctx" and "ordered_ctx ctx"
  shows "res_ctx (SwapKeyframesOperator_execute new (res_ctx (SwapKeyframesOperator_execute new ctx))) = ctx"
proof (cases rule: SwapKeyframesOperator_execute_cases[of new ctx])
  case (cancelled m)
  then show ?thesis by (simp add: cancel_def)
next
  case (finished obj a b S T fcs)
  from assms(1) finished(3) have ab: "a \<noteq> b" by (simp add: distinct_selection_def)
  with finished(5) have ST: "S \<noteq> T" by auto
  from assms(2) finished(1,6) have ord: "ordered_action fcs"
    by (simp add: ordered_ctx_def ctx_fcurves_def)
  let ?fcs' = "foldl (swap_channel new S T) fcs transform_channels"
  let ?obj' = "obj\<lparr>animation_data := Some (AnimData (Some ?fcs'))\<rparr>"
  let ?ctx' = "set_fcurves ctx obj ?fcs'"
  have c': "res_ctx (SwapKeyframesOperator_execute new ctx) = ?ctx'" using finished(7) by (simp add: finish_def)
  have "SwapKeyframesOperator_execute new ?ctx' =
        finish (set_fcurves ?ctx' ?obj' (foldl (swap_channel new S T) ?fcs' transform_channels))
          [(INFO, Swapped S T)]"
    using finished(2,3,4,5) ab by (auto simp: SwapKeyframesOperator_execute_def set_fcurves_def)
  then have "res_ctx (SwapKeyframesOperator_execute new ?ctx') = set_fcurves ?ctx' ?obj' fcs"
    using swap_loop_twice[OF ord ST] by (simp add: finish_def)
  also have "\<dots> = ctx" using finished(1,6) by (simp add: set_fcurves_def)
  finally show ?thesis using c' by simp
qed


lemma length_foldl_insert_into [simp]:
  "length (foldl (insert_into new k) fcs ds) = length fcs"
  by (induction ds arbitrary: fcs) (simp_all add: insert_into_def)

lemma swap_channel_frame:
  shows "length (swap_channel new S T fcs pa) = length fcs"
    and "map data_path (swap_channel new S T fcs pa) = map data_path fcs"
    and "map array_index (swap_channel new S T fcs pa) = map array_index fcs"
    and "find_fcurve (bone_path S (fst pa)) (snd pa) fcs \<noteq> Some n \<Longrightarrow>
         find_fcurve (bone_path T (fst pa)) (snd pa) fcs \<noteq> Some n \<Longrightarrow>
         swap_channel new S T fcs pa ! n = fcs ! n"
proof -
  have l: "length (swap_channel new S T fcs pa) = length fcs"
    by (simp add: swap_channel_def Let_def split: option.splits)
  show "length (swap_channel new S T fcs pa) = length fcs" by (rule l)
  show "map data_path (swap_channel new S T fcs pa) = map data_path fcs"
    by (rule nth_equalityI)
       (auto simp: l swap_channel_def Let_def foldl_insert_into nth_list_update kp_clear_def
             split: option.splits dest!: find_fcurve_Some)
  show "map array_index (swap_channel new S T fcs pa) = map array_index fcs"
    by (rule nth_equalityI)
       (auto simp: l swap_channel_def Let_def foldl_insert_into nth_list_update kp_clear_def
             split: option.splits dest!: find_fcurve_Some)
  show "swap_channel new S T fcs pa ! n = fcs ! n"
    if ns: "find_fcurve (bone_path S (fst pa)) (snd pa) fcs \<noteq> Some n"
      and nt: "find_fcurve (bone_path T (fst pa)) (snd pa) fcs \<noteq> Some n"
  proof (cases "find_fcurve (bone_path S (fst pa)) (snd pa) fcs")
    case None
    then show ?thesis by (simp add: swap_channel_def Let_def)
  next
    case i: (Some i)
    show ?thesis
    proof (cases "find_fcurve (bone_path T (fst pa)) (snd pa) fcs")
      case None
      with i show ?thesis by (simp add: swap_channel_def Let_def)
    next
      case j: (Some j)
      from find_fcurve_Some[OF i] find_fcurve_Some[OF j] ns nt i j
      have "i < length fcs" "j < length fcs" "n \<noteq> i" "n \<noteq> j" by auto
      with i j show ?thesis
        by (simp add: swap_channel_def Let_def foldl_insert_into nth_list_update kp_clear_def)
    qed
  qed
qed

lemma find_fcurve_swap_channel [simp]:
  "find_fcurve p a (swap_channel new S T fcs pa) = find_fcurve p a fcs"
  by (rule find_fcurve_keys) (rule swap_channel_frame)+

lemma find_fcurve_swap_loop [simp]:
  "find_fcurve p a (foldl (swap_channel new S T) fcs pas) = find_fcurve p a fcs"
  by (induction pas arbitrary: fcs) simp_all

lemma swap_channel_absent:
  "find_fcurve (bone_path S (fst pa)) (snd pa) fcs = None \<or>
   find_fcurve (bone_path T (fst pa)) (snd pa) fcs = None \<Longrightarrow>
   swap_channel new S T fcs pa = fcs"
  by (auto simp: swap_channel_def Let_def split: option.splits)

lemma swap_loop_frame:
  assumes "\<forall>pa \<in> set pas.
      find_fcurve (bone_path S (fst pa)) (snd pa) fcs = None \<or>
      find_fcurve (bone_path T (fst pa)) (snd pa) fcs = None \<or>
      (find_fcurve (bone_path S (fst pa)) (snd pa) fcs \<noteq> Some n \<and>
       find_fcurve (bone_path T (fst pa)) (snd pa) fcs \<noteq> Some n)"
  shows "foldl (swap_channel new S T) fcs pas ! n = fcs ! n \<and>
         (\<forall>p a. find_fcurve p a (foldl (swap_channel new S T) fcs pas) = find_fcurve p a fcs)"
  using assms
proof (induction pas arbitrary: fcs)
  case Nil
  then show ?case by simp
next
  case (Cons pa pas)
  let ?g = "swap_channel new S T fcs pa"
  have n: "?g ! n = fcs ! n"
    using Cons.prems swap_channel_absent[of S pa fcs T new] swap_channel_frame(4)[of S pa fcs n T new]
    by auto
  have "foldl (swap_channel new S T) ?g pas ! n = ?g ! n \<and>
        (\<forall>p a. find_fcurve p a (foldl (swap_channel new S T) ?g pas) = find_fcurve p a ?g)"
    using Cons.prems by (intro Cons.IH) simp
  with n show ?case by simp
qed

text \<open>
  Claim C8. When, for a property and axis that the swap considers, exactly one of the two
  selected bones has the channel, the swap leaves that channel as it was and does not
  create the missing one.
\<close>

theorem swap_skips_unpaired_channel:
  assumes "ctx_object ctx = Some obj" and "obj_type obj = ''ARMATURE''"
    and "selected_pose_bones ctx = Some [a, b]"
    and "active_pose_bone ctx = Some a \<or> active_pose_bone ctx = Some b"
    and "animation_data obj = Some (AnimData (Some fcs))"
    and "(prop, axis) \<in> set transform_channels"
    and "(channel (bone_path a prop) axis fcs = None) \<noteq> (channel (bone_path b prop) axis fcs = None)"
  shows "\<exists>fcs'. ctx_fcurves (res_ctx (SwapKeyframesOperator_execute new ctx)) = Some fcs' \<and>
           channel (bone_path a prop) axis fcs' = channel (bone_path a prop) axis fcs \<and>
           channel (bone_path b prop) axis fcs' = channel (bone_path b prop) axis fcs"
proof (cases rule: SwapKeyframesOperator_execute_cases[of new ctx])
  case (cancelled m)
  with assms(1-5) show ?thesis
    by (auto simp: SwapKeyframesOperator_execute_def cancel_def finish_def Let_def)
next
  case (finished obj' a' b' S T fcs0)
  with assms(1,3,5) have eq: "obj' = obj" "a' = a" "b' = b" "fcs0 = fcs" by simp_all
  let ?fcs' = "foldl (swap_channel new S T) fcs transform_channels"
  have c: "ctx_fcurves (res_ctx (SwapKeyframesOperator_execute new ctx)) = Some ?fcs'"
    using finished(7) eq by (simp add: finish_def set_fcurves_def ctx_fcurves_def)
  have ST: "(S = a \<and> T = b) \<or> (S = b \<and> T = a)"
    using finished(5) assms(7) eq by auto
  have one: "find_fcurve (bone_path S prop) axis fcs = None \<or>
             find_fcurve (bone_path T prop) axis fcs = None"
    using assms(7) ST by (auto simp: channel_def)
  have keep: "?fcs' ! n = fcs ! n"
    if n: "find_fcurve (bone_path c prop) axis fcs = Some n" and c: "c = S \<or> c = T" for n c
  proof -
    have "\<forall>pa \<in> set transform_channels.
      find_fcurve (bone_path S (fst pa)) (snd pa) fcs = None \<or>
      find_fcurve (bone_path T (fst pa)) (snd pa) fcs = None \<or>
      (find_fcurve (bone_path S (fst pa)) (snd pa) fcs \<noteq> Some n \<and>
       find_fcurve (bone_path T (fst pa)) (snd pa) fcs \<noteq> Some n)"
    proof
      fix pa assume pa: "pa \<in> set transform_channels"
      show "find_fcurve (bone_path S (fst pa)) (snd pa) fcs = None \<or>
        find_fcurve (bone_path T (fst pa)) (snd pa) fcs = None \<or>
        (find_fcurve (bone_path S (fst pa)) (snd pa) fcs \<noteq> Some n \<and>
         find_fcurve (bone_path T (fst pa)) (snd pa) fcs \<noteq> Some n)"
      proof (cases "pa = (prop, axis)")
        case True
        with one show ?thesis by auto
      next
        case False
        have "find_fcurve (bone_path d (fst pa)) (snd pa) fcs \<noteq> Some n" for d
        proof
          assume "find_fcurve (bone_path d (fst pa)) (snd pa) fcs = Some n"
          from find_fcurve_Some[OF this] find_fcurve_Some[OF n]
          have e: "bone_path d (fst pa) = bone_path c prop" "snd pa = axis" by simp_all
          from e(1) have "fst pa = prop"
            using bone_path_prop_eq transform_channels_prop[OF pa]
              transform_channels_prop[OF assms(6)] by fastforce
          with e(2) False show False by (simp add: prod_eq_iff)
        qed
        then show ?thesis by simp
      qed
    qed
    from swap_loop_frame[OF this] show ?thesis by simp
  qed
  have finds: "find_fcurve p x ?fcs' = find_fcurve p x fcs" for p x
    by simp
  have "channel (bone_path c prop) axis ?fcs' = channel (bone_path c prop) axis fcs"
    if "c = S \<or> c = T" for c
    using keep[OF _ that] by (cases "find_fcurve (bone_path c prop) axis fcs")
      (simp_all add: channel_def finds)
  with ST c show ?thesis by auto
qed


theorem swap_twice_restores_witness:
  "distinct_selection swap_ctx \<and> ordered_ctx swap_ctx \<and>
   res_ret (SwapKeyframesOperator_execute flat_point swap_ctx) = Returned FINISHED \<and>
   res_ctx (SwapKeyframesOperator_execute flat_point (res_ctx (SwapKeyframesOperator_execute flat_point swap_ctx))) = swap_ctx"
proof -
  have 1: "distinct_selection swap_ctx"
    by (simp add: distinct_selection_def swap_ctx_def)
  have 2: "ordered_ctx swap_ctx"
    by (simp add: ordered_ctx_def ctx_fcurves_def swap_ctx_def armature_def swap_fcs_def
          ordered_action_def ordered_points_def flat_point_def)
  have 3: "res_ret (SwapKeyframesOperator_execute flat_point swap_ctx) = Returned FINISHED"
    by (simp add: SwapKeyframesOperator_execute_def swap_ctx_def armature_def finish_def Let_def)
  from 1 2 3 swap_twice_restores[OF 1 2, of flat_point] show ?thesis by simp
qed

theorem swap_skips_unpaired_channel_witness:
  "ctx_object swap_ctx = Some (armature [''Hand.L'', ''Hand.R''] swap_fcs) \<and>
   obj_type (armature [''Hand.L'', ''Hand.R''] swap_fcs) = ''ARMATURE'' \<and>
   selected_pose_bones swap_ctx = Some [''Hand.L'', ''Hand.R''] \<and>
   active_pose_bone swap_ctx = Some ''Hand.R'' \<and>
   animation_data (armature [''Hand.L'', ''Hand.R''] swap_fcs) = Some (AnimData (Some swap_fcs)) \<and>
   (''scale'', 1) \<in> set transform_channels \<and>
   channel (bone_path ''Hand.L'' ''scale'') 1 swap_fcs = Some [flat_point 2 1] \<and>
   channel (bone_path ''Hand.R'' ''scale'') 1 swap_fcs = None \<and>
   (\<exists>fcs'. ctx_fcurves (res_ctx (SwapKeyframesOperator_execute flat_point swap_ctx)) = Some fcs' \<and>
      channel (bone_path ''Hand.L'' ''scale'') 1 fcs' = Some [flat_point 2 1] \<and>
      channel (bone_path ''Hand.R'' ''scale'') 1 fcs' = None)"
proof -
  have h: "ctx_object swap_ctx = Some (armature [''Hand.L'', ''Hand.R''] swap_fcs)"
    "obj_type (armature [''Hand.L'', ''Hand.R''] swap_fcs) = ''ARMATURE''"
    "selected_pose_bones swap_ctx = Some [''Hand.L'', ''Hand.R'']"
    "active_pose_bone swap_ctx = Some ''Hand.L'' \<or> active_pose_bone swap_ctx = Some ''Hand.R''"
    "animation_data (armature [''Hand.L'', ''Hand.R''] swap_fcs) = Some (AnimData (Some swap_fcs))"
    "(''scale'', 1) \<in> set transform_channels"
    by (simp_all add: swap_ctx_def armature_def transform_channels_def transform_properties_def)
  have c: "channel (bone_path ''Hand.L'' ''scale'') 1 swap_fcs = Some [flat_point 2 1]"
    "channel (bone_path ''Hand.R'' ''scale'') 1 swap_fcs = None"
    by (simp_all add: channel_def swap_fcs_def bone_path_def)
  then have x: "(channel (bone_path ''Hand.L'' ''scale'') 1 swap_fcs = None) \<noteq>
             (channel (bone_path ''Hand.R'' ''scale'') 1 swap_fcs = None)"
    by simp
  from swap_skips_unpaired_channel[OF h x, of flat_point] h c show ?thesis
    by (simp add: swap_ctx_def)
qed

subsection \<open>The transfer loop as a sequence of writes\<close>

lemma plain_prefix:
  "c \<notin> set xs \<Longrightarrow> c \<notin> set ys \<Longrightarrow> prefix (xs @ c # r) (ys @ c # r') \<Longrightarrow> xs = ys"
proof (induction xs arbitrary: ys)
  case Nil
  then show ?case by (cases ys) auto
next
  case (Cons x xs)
  then show ?case by (cases ys) auto
qed

lemma separate_paths:
  assumes "plain_name S" "plain_name T" "S \<noteq> T"
  shows "\<not> prefix (source_prefix S) (bone_path T p)"
proof
  assume "prefix (source_prefix S) (bone_path T p)"
  then have \<open>prefix (S @ CHR ''"'' # ''].location'') (T @ CHR ''"'' # ''].'' @ p)\<close>
    by (simp add: source_prefix_def bone_path_def)
  with assms(1,2) have "S = T" unfolding plain_name_def by (blast intro: plain_prefix)
  with assms(3) show False by simp
qed

lemma foldl_copy_keyframe:
  "k < length fcs \<Longrightarrow>
   fst (foldl (copy_keyframe new k j s) (fcs, lg) pts) =
     fcs[k := (fcs ! k)\<lparr>keyframe_points :=
            insert_all new (scaled_points s pts) (keyframe_points (fcs ! k))\<rparr>]"
proof (induction pts arbitrary: fcs lg)
  case Nil
  then show ?case by (simp add: insert_all_def scaled_points_def)
next
  case (Cons p pts)
  obtain fcs' lg' where st: "copy_keyframe new k j s (fcs, lg) p = (fcs', lg')"
    by (cases "copy_keyframe new k j s (fcs, lg) p")
  then have f: "fcs' = fcs[k := (fcs ! k)\<lparr>keyframe_points :=
      kp_insert new (fst (co p)) (snd (co p) * of_int s) (keyframe_points (fcs ! k))\<rparr>]"
    by (simp add: copy_keyframe_def Let_def)
  with Cons.prems have "k < length fcs'" by simp
  from Cons.IH[OF this, of lg'] st f Cons.prems show ?case
    by (simp add: insert_all_def scaled_points_def)
qed

lemma find_fcurve_not_alias:
  "find_fcurve p j fcs = Some k \<Longrightarrow> data_path (fcs ! i) \<noteq> p \<Longrightarrow> k \<noteq> i"
  by (auto dest: find_fcurve_Some)

lemma copy_fcurve_write:
  assumes i: "i < length fcs"
    and na: "\<And>w k. transfer_of S T axes (fcs ! i) = Some w \<Longrightarrow>
               find_fcurve (fst (fst w)) (snd (fst w)) fcs = Some k \<Longrightarrow> k \<noteq> i"
  shows "fst (copy_fcurve new S T axes ra (fcs, lg) i) =
           (case transfer_of S T axes (fcs ! i) of
              None \<Rightarrow> fcs
            | Some w \<Rightarrow> write_channel new ra fcs w)"
proof (cases "transfer_of S T axes (fcs ! i)")
  case None
  then show ?thesis
    by (auto simp: copy_fcurve_def transfer_of_def Let_def split: if_splits option.splits)
next
  case (Some w)
  then obtain j s where
    src: "prefix (source_prefix S) (data_path (fcs ! i))"
    and idx: "0 \<le> array_index (fcs ! i)" "array_index (fcs ! i) < int (length axes)"
    and am: "axis_mapping (axes ! nat (array_index (fcs ! i))) = Some (j, s)"
    and w: "w = ((bone_path T (last_component (data_path (fcs ! i))), j), s, keyframe_points (fcs ! i))"
    by (auto simp: transfer_of_def split: if_splits)
  let ?p = "bone_path T (last_component (data_path (fcs ! i)))"
  show ?thesis
  proof (cases "find_fcurve ?p j fcs")
    case None
    with Some w src idx am i show ?thesis
      by (simp add: copy_fcurve_def write_channel_def Let_def fcurves_new_def kp_clear_def
            nth_append foldl_copy_keyframe insert_all_def scaled_points_def)
  next
    case (Some k)
    from na[OF \<open>transfer_of S T axes (fcs ! i) = Some w\<close>, of k] Some w have ki: "k \<noteq> i" by simp
    from find_fcurve_Some[OF Some] have kl: "k < length fcs" by simp
    from Some \<open>transfer_of S T axes (fcs ! i) = Some w\<close> w src idx am i ki kl show ?thesis
      by (simp add: copy_fcurve_def write_channel_def Let_def kp_clear_def
            foldl_copy_keyframe insert_all_def scaled_points_def)
  qed
qed


lemma extends_refl: "extends S fcs fcs"
  by (auto simp: extends_def)

lemma find_fcurve_append:
  "find_fcurve p j (fcs @ [c]) =
     (case find_fcurve p j fcs of
        Some k \<Rightarrow> Some k
      | None \<Rightarrow> if data_path c = p \<and> array_index c = j then Some (length fcs) else None)"
  by (induction fcs) (auto split: option.splits)

lemma write_channel_found:
  "find_fcurve (fst (fst w)) (snd (fst w)) fcs = Some k \<Longrightarrow>
   write_channel new ra fcs w =
     fcs[k := (fcs ! k)\<lparr>keyframe_points :=
            insert_all new (scaled_points (fst (snd w)) (snd (snd w)))
              (if ra then [] else keyframe_points (fcs ! k))\<rparr>]"
  by (simp add: write_channel_def Let_def)

lemma write_channel_created:
  "find_fcurve (fst (fst w)) (snd (fst w)) fcs = None \<Longrightarrow>
   write_channel new ra fcs w =
     fcs @ [\<lparr>data_path = fst (fst w), array_index = snd (fst w),
             keyframe_points = insert_all new (scaled_points (fst (snd w)) (snd (snd w))) []\<rparr>]"
  by (simp add: write_channel_def Let_def fcurves_new_def)

lemma write_channel_extends:
  assumes e: "extends S fcs0 fcs" and t: "\<not> prefix (source_prefix S) (fst (fst w))"
  shows "extends S fcs0 (write_channel new ra fcs w)"
proof (cases "find_fcurve (fst (fst w)) (snd (fst w)) fcs")
  case None
  with e t show ?thesis
    by (auto simp: write_channel_created extends_def nth_append)
next
  case (Some k)
  from find_fcurve_Some[OF Some] have k: "k < length fcs" "data_path (fcs ! k) = fst (fst w)"
    by simp_all
  have "k \<noteq> i" if "i < length fcs0" "prefix (source_prefix S) (data_path (fcs0 ! i))" for i
    using that e k t by (auto simp: extends_def)
  with e t k show ?thesis
    by (auto simp: write_channel_found[OF Some] extends_def nth_list_update)
qed

lemma channel_write_channel:
  "channel p j (write_channel new ra fcs w) =
     (if (p, j) = fst w
      then Some (insert_all new (scaled_points (fst (snd w)) (snd (snd w)))
                  (if ra then []
                   else (case channel p j fcs of None \<Rightarrow> [] | Some kps \<Rightarrow> kps)))
      else channel p j fcs)"
proof (cases "find_fcurve (fst (fst w)) (snd (fst w)) fcs")
  case None
  then show ?thesis
    by (auto simp: write_channel_created channel_def find_fcurve_append nth_append prod_eq_iff
          split: option.splits dest: find_fcurve_Some)
next
  case (Some k)
  from find_fcurve_Some[OF Some] have k: "k < length fcs" "data_path (fcs ! k) = fst (fst w)"
    "array_index (fcs ! k) = snd (fst w)"
    by simp_all
  show ?thesis
  proof (cases "(p, j) = fst w")
    case True
    then have "fst (fst w) = p" "snd (fst w) = j" by (auto simp: prod_eq_iff)
    with Some k True show ?thesis
      by (simp add: write_channel_found[OF Some] channel_def find_fcurve_update)
  next
    case False
    have "k' \<noteq> k" if "find_fcurve p j fcs = Some k'" for k'
      using find_fcurve_Some[OF that] k False by (auto simp: prod_eq_iff)
    with False k show ?thesis
      by (cases "find_fcurve p j fcs")
         (simp_all add: write_channel_found[OF Some] channel_def find_fcurve_update)
  qed
qed

lemma channel_foldl_write:
  "channel p j (foldl (write_channel new ra) fcs ws) =
     after_writes new ra (p, j) ws (channel p j fcs)"
proof (induction ws arbitrary: fcs)
  case Nil
  then show ?case by simp
next
  case (Cons w ws)
  show ?case by (simp add: Cons.IH channel_write_channel eq_commute[of "fst w"])
qed


lemma transfer_of_target:
  "transfer_of S T axes fc = Some w \<Longrightarrow> \<exists>p. fst (fst w) = bone_path T p"
  by (auto simp: transfer_of_def split: if_splits)

lemma transfer_of_source:
  "transfer_of S T axes fc = Some w \<Longrightarrow> prefix (source_prefix S) (data_path fc)"
  by (auto simp: transfer_of_def split: if_splits)

lemma transfer_of_not_source:
  "\<not> prefix (source_prefix S) (data_path fc) \<Longrightarrow> transfer_of S T axes fc = None"
  by (simp add: transfer_of_def)

lemma transfer_of_extends:
  "extends S fcs0 fcs \<Longrightarrow> i < length fcs0 \<Longrightarrow>
   transfer_of S T axes (fcs ! i) = transfer_of S T axes (fcs0 ! i)"
  by (cases "prefix (source_prefix S) (data_path (fcs0 ! i))")
     (auto simp: extends_def transfer_of_not_source)

lemma transfers_snoc:
  "transfers S T axes (fcs @ [fc]) =
     transfers S T axes fcs @ (case transfer_of S T axes fc of None \<Rightarrow> [] | Some w \<Rightarrow> [w])"
  by (simp add: transfers_def List.map_filter_def split: option.splits)

lemma copy_loop_prefix:
  assumes sep: "\<And>p. \<not> prefix (source_prefix S) (bone_path T p)"
  shows "m \<le> length fcs \<Longrightarrow>
         fst (foldl (copy_fcurve new S T axes ra) (fcs, lg) [0..<m]) =
           foldl (write_channel new ra) fcs (transfers S T axes (take m fcs)) \<and>
         extends S fcs (fst (foldl (copy_fcurve new S T axes ra) (fcs, lg) [0..<m]))"
proof (induction m)
  case 0
  then show ?case by (simp add: transfers_def extends_refl)
next
  case (Suc m)
  obtain f l where st: "foldl (copy_fcurve new S T axes ra) (fcs, lg) [0..<m] = (f, l)"
    by (cases "foldl (copy_fcurve new S T axes ra) (fcs, lg) [0..<m]")
  from Suc st have f: "f = foldl (write_channel new ra) fcs (transfers S T axes (take m fcs))"
    and e: "extends S fcs f"
    by auto
  from Suc.prems have m: "m < length fcs" by simp
  with e have mf: "m < length f" by (simp add: extends_def)
  have t: "transfer_of S T axes (f ! m) = transfer_of S T axes (fcs ! m)"
    using e m by (rule transfer_of_extends)
  have na: "k \<noteq> m" if "transfer_of S T axes (f ! m) = Some w"
    "find_fcurve (fst (fst w)) (snd (fst w)) f = Some k" for w k
  proof
    assume "k = m"
    with find_fcurve_Some[OF that(2)] have "data_path (f ! m) = fst (fst w)" by simp
    with transfer_of_target[OF that(1)] transfer_of_source[OF that(1)] sep show False by auto
  qed
  have step: "fst (copy_fcurve new S T axes ra (f, l) m) =
      (case transfer_of S T axes (fcs ! m) of None \<Rightarrow> f | Some w \<Rightarrow> write_channel new ra f w)"
  proof -
    have "fst (copy_fcurve new S T axes ra (f, l) m) =
      (case transfer_of S T axes (f ! m) of None \<Rightarrow> f | Some w \<Rightarrow> write_channel new ra f w)"
      using mf by (rule copy_fcurve_write) (erule (1) na)
    with t show ?thesis by simp
  qed
  have tk: "take (Suc m) fcs = take m fcs @ [fcs ! m]"
    using m by (simp add: take_Suc_conv_app_nth)
  have 1: "fst (foldl (copy_fcurve new S T axes ra) (fcs, lg) [0..<Suc m]) =
        foldl (write_channel new ra) fcs (transfers S T axes (take (Suc m) fcs))"
    using st step f by (simp add: tk transfers_snoc split: option.splits)
  have 2: "extends S fcs (fst (copy_fcurve new S T axes ra (f, l) m))"
  proof (cases "transfer_of S T axes (fcs ! m)")
    case None
    with step e show ?thesis by simp
  next
    case (Some w)
    from transfer_of_target[OF Some] sep have "\<not> prefix (source_prefix S) (fst (fst w))"
      by auto
    from write_channel_extends[OF e this] step Some show ?thesis by simp
  qed
  from 1 2 st show ?case by simp
qed

lemma copy_fcurves_writes:
  assumes "\<And>p. \<not> prefix (source_prefix S) (bone_path T p)"
  shows "fst (copy_fcurves new S T axes ra (fcs, lg)) =
           foldl (write_channel new ra) fcs (transfers S T axes fcs)"
    and "extends S fcs (fst (copy_fcurves new S T axes ra (fcs, lg)))"
  using copy_loop_prefix[OF assms, where m="length fcs" and fcs=fcs and new=new and axes=axes
      and ra=ra and lg=lg]
  by (auto simp: copy_fcurves_def)

lemma channel_copy_fcurves:
  assumes "\<And>p. \<not> prefix (source_prefix S) (bone_path T p)"
  shows "channel p j (fst (copy_fcurves new S T axes ra (fcs, lg))) =
           after_writes new ra (p, j) (transfers S T axes fcs) (channel p j fcs)"
  by (simp add: copy_fcurves_writes(1)[OF assms] channel_foldl_write)


lemma split_on_no_delimiter: "d \<notin> set p \<Longrightarrow> split_on d p = [p]"
  by (induction p) auto

lemma split_on_nonempty: "split_on d p \<noteq> []"
  by (induction p) (auto split: list.splits)

lemma split_on_two: "\<exists>w v ws. split_on d (xs @ d # p) = w # v # ws"
proof (induction xs)
  case Nil
  show ?case using split_on_nonempty[of d p] by (cases "split_on d p") auto
next
  case (Cons x xs)
  then show ?case by auto
qed

lemma last_split_on: "last (split_on d (xs @ d # p)) = last (split_on d p)"
proof (induction xs)
  case Nil
  show ?case using split_on_nonempty[of d p] by simp
next
  case (Cons x xs)
  from split_on_two[of d xs p] obtain w v ws where "split_on d (xs @ d # p) = w # v # ws"
    by blast
  with Cons show ?case by auto
qed

lemma last_component_bone_path:
  "CHR ''.'' \<notin> set prop \<Longrightarrow> last_component (bone_path name prop) = prop"
proof -
  assume p: "CHR ''.'' \<notin> set prop"
  have \<open>bone_path name prop = (''pose.bones["'' @ name @ ''"]'') @ CHR ''.'' # prop\<close>
    by (simp add: bone_path_def)
  then show ?thesis
    unfolding last_component_def by (simp only: last_split_on split_on_no_delimiter[OF p]) simp
qed

lemma kp_insert_keeps:
  "k0 \<in> set kps \<Longrightarrow> fst (co k0) \<noteq> t \<Longrightarrow> k0 \<in> set (kp_insert new t v kps)"
  by (induction kps) auto

lemma kp_insert_has: "\<exists>k \<in> set (kp_insert new t v kps). co k = (t, v)"
  by (induction kps) auto

lemma kp_insert_origin:
  "k \<in> set (kp_insert new t v kps) \<Longrightarrow> k \<in> set kps \<or> co k = (t, v)"
  by (induction kps) (auto split: if_splits)

lemma insert_all_Cons:
  "insert_all new (p # ps) kps = insert_all new ps (kp_insert new (fst p) (snd p) kps)"
  by (simp add: insert_all_def)

lemma insert_all_Nil [simp]: "insert_all new [] kps = kps"
  by (simp add: insert_all_def)

lemma insert_all_append:
  "insert_all new (ps @ qs) kps = insert_all new qs (insert_all new ps kps)"
  by (simp add: insert_all_def)

lemma insert_all_keeps:
  "k0 \<in> set kps \<Longrightarrow> fst (co k0) \<notin> fst ` set ps \<Longrightarrow> k0 \<in> set (insert_all new ps kps)"
  by (induction ps arbitrary: kps) (auto simp: insert_all_Cons kp_insert_keeps)

lemma insert_all_has:
  "distinct (map fst ps) \<Longrightarrow> p \<in> set ps \<Longrightarrow> \<exists>k \<in> set (insert_all new ps kps). co k = p"
proof (induction ps arbitrary: kps)
  case Nil
  then show ?case by simp
next
  case (Cons q ps)
  show ?case
  proof (cases "p = q")
    case True
    from kp_insert_has[of new "fst q" "snd q" kps] obtain k
      where k: "k \<in> set (kp_insert new (fst q) (snd q) kps)" "co k = q"
      by auto
    from Cons.prems(1) k(2) have "fst (co k) \<notin> fst ` set ps" by auto
    from insert_all_keeps[OF k(1) this] k(2) True show ?thesis
      by (auto simp: insert_all_Cons)
  next
    case False
    with Cons show ?thesis by (auto simp: insert_all_Cons)
  qed
qed

lemma insert_all_origin:
  "k \<in> set (insert_all new ps kps) \<Longrightarrow> k \<in> set kps \<or> co k \<in> set ps"
proof (induction ps arbitrary: kps)
  case Nil
  then show ?case by simp
next
  case (Cons p ps)
  from Cons.prems have "k \<in> set (insert_all new ps (kp_insert new (fst p) (snd p) kps))"
    by (simp add: insert_all_Cons)
  from Cons.IH[OF this] show ?case
    using kp_insert_origin[of k new "fst p" "snd p" kps] by auto
qed

lemma after_writes_append:
  "after_writes new ra K (ws @ ws') ch = after_writes new ra K ws' (after_writes new ra K ws ch)"
  by (induction ws arbitrary: ch) simp_all

lemma after_writes_miss:
  "\<forall>w \<in> set ws. fst w \<noteq> K \<Longrightarrow> after_writes new ra K ws ch = ch"
  by (induction ws arbitrary: ch) simp_all

lemma transfers_append:
  "transfers S T axes (xs @ ys) = transfers S T axes xs @ transfers S T axes ys"
  by (simp add: transfers_def List.map_filter_def)

lemma set_transfers:
  "set (transfers S T axes fcs) = {w. \<exists>fc \<in> set fcs. transfer_of S T axes fc = Some w}"
  by (force simp: transfers_def List.map_filter_def image_iff)

lemma transfers_single:
  "transfers S T axes [fc] = (case transfer_of S T axes fc of None \<Rightarrow> [] | Some w \<Rightarrow> [w])"
  by (simp add: transfers_def List.map_filter_def split: option.splits)

lemma transfers_split:
  "i < length fcs \<Longrightarrow>
   transfers S T axes fcs =
     transfers S T axes (take i fcs) @
     (case transfer_of S T axes (fcs ! i) of None \<Rightarrow> [] | Some w \<Rightarrow> [w]) @
     transfers S T axes (drop (Suc i) fcs)"
proof -
  assume i: "i < length fcs"
  then have "fcs = take i fcs @ [fcs ! i] @ drop (Suc i) fcs"
    by (simp add: id_take_nth_drop[symmetric])
  then have "transfers S T axes fcs =
     transfers S T axes (take i fcs @ [fcs ! i] @ drop (Suc i) fcs)"
    by simp
  then show ?thesis by (simp only: transfers_append transfers_single)
qed

lemma sole_source_other:
  assumes "sole_source S T axes fcs i" and "transfer_of S T axes (fcs ! i) = Some w"
    and "i' < length fcs" and "i' \<noteq> i" and "transfer_of S T axes (fcs ! i') = Some v"
  shows "fst v \<noteq> fst w"
proof -
  from assms(1,3,4) have "map_option fst (transfer_of S T axes (fcs ! i')) \<noteq>
      map_option fst (transfer_of S T axes (fcs ! i))"
    unfolding sole_source_def by blast
  with assms(2,5) show ?thesis by simp
qed

lemma after_writes_sole:
  assumes i: "i < length fcs" and t: "transfer_of S T axes (fcs ! i) = Some w"
    and sole: "sole_source S T axes fcs i"
  shows "after_writes new ra (fst w) (transfers S T axes fcs) ch =
           Some (insert_all new (scaled_points (fst (snd w)) (snd (snd w)))
                   (if ra then [] else (case ch of None \<Rightarrow> [] | Some kps \<Rightarrow> kps)))"
proof -
  have before: "\<forall>v \<in> set (transfers S T axes (take i fcs)). fst v \<noteq> fst w"
  proof
    fix v assume "v \<in> set (transfers S T axes (take i fcs))"
    then obtain i' where "i' < i" "transfer_of S T axes (fcs ! i') = Some v"
      using i by (auto simp: set_transfers in_set_conv_nth)
    with sole_source_other[OF sole t, of i' v] i show "fst v \<noteq> fst w" by simp
  qed
  have after: "\<forall>v \<in> set (transfers S T axes (drop (Suc i) fcs)). fst v \<noteq> fst w"
  proof
    fix v assume "v \<in> set (transfers S T axes (drop (Suc i) fcs))"
    then obtain n where n: "n < length fcs - Suc i"
      "transfer_of S T axes (fcs ! (Suc i + n)) = Some v"
      using i by (auto simp: set_transfers in_set_conv_nth)
    from n(1) have "Suc i + n < length fcs" by arith
    with sole_source_other[OF sole t, of "Suc i + n" v] n(2) show "fst v \<noteq> fst w" by simp
  qed
  show ?thesis
    unfolding transfers_split[OF i] t
    by (simp add: after_writes_append after_writes_miss[OF before] after_writes_miss[OF after])
qed

lemma frames_scaled_points:
  "fst ` set (scaled_points s pts) = (\<lambda>q. fst (co q)) ` set pts"
  by (auto simp: scaled_points_def image_iff)

lemma after_writes_replace:
  "\<exists>w \<in> set ws. fst w = K \<Longrightarrow>
   \<exists>w \<in> set ws. fst w = K \<and>
     after_writes new True K ws ch =
       Some (insert_all new (scaled_points (fst (snd w)) (snd (snd w))) [])"
proof (induction ws arbitrary: ch rule: rev_induct)
  case Nil
  then show ?case by simp
next
  case (snoc x ws)
  show ?case
  proof (cases "fst x = K")
    case True
    then show ?thesis by (auto simp: after_writes_append)
  next
    case False
    with snoc.prems have "\<exists>w \<in> set ws. fst w = K" by auto
    from snoc.IH[OF this, of ch] False show ?thesis by (auto simp: after_writes_append)
  qed
qed

lemma after_writes_keeps:
  "k0 \<in> set old \<Longrightarrow>
   \<forall>w \<in> set ws. fst w = K \<longrightarrow> fst (co k0) \<notin> (\<lambda>q. fst (co q)) ` set (snd (snd w)) \<Longrightarrow>
   \<exists>kps. after_writes new False K ws (Some old) = Some kps \<and> k0 \<in> set kps"
proof (induction ws arbitrary: old)
  case Nil
  then show ?case by simp
next
  case (Cons w ws)
  show ?case
  proof (cases "fst w = K")
    case True
    with Cons.prems have "fst (co k0) \<notin> fst ` set (scaled_points (fst (snd w)) (snd (snd w)))"
      by (simp add: frames_scaled_points)
    from insert_all_keeps[OF Cons.prems(1) this]
    have "k0 \<in> set (insert_all new (scaled_points (fst (snd w)) (snd (snd w))) old)" .
    from Cons.IH[OF this] Cons.prems(2) True show ?thesis by simp
  next
    case False
    with Cons.IH[OF Cons.prems(1)] Cons.prems(2) show ?thesis by simp
  qed
qed

lemma foldl_copy_keyframe_log:
  "\<exists>l. snd (foldl (copy_keyframe new k j s) st pts) = snd st @ l"
proof (induction pts arbitrary: st)
  case Nil
  then show ?case by simp
next
  case (Cons p pts)
  from Cons[of "copy_keyframe new k j s st p"] show ?case
    by (auto simp: copy_keyframe_def Let_def)
qed

lemma copy_fcurve_log: "\<exists>l. snd (copy_fcurve new S T axes ra st i) = snd st @ l"
proof -
  have *: "\<exists>l'. snd (foldl (copy_keyframe new k j s) (f, snd st @ l) pts) = snd st @ l'"
    for k j s f l pts
    using foldl_copy_keyframe_log[of new k j s "(f, snd st @ l)" pts] by auto
  show ?thesis
    unfolding copy_fcurve_def Let_def
    by (auto split: option.splits prod.splits simp: *)
qed

lemma copy_loop_log:
  "\<exists>l. snd (foldl (copy_fcurve new S T axes ra) st is) = snd st @ l"
proof (induction "is" arbitrary: st)
  case Nil
  then show ?case by simp
next
  case (Cons i "is")
  from Cons[of "copy_fcurve new S T axes ra st i"] copy_fcurve_log[of new S T axes ra st i]
  show ?case by auto
qed

lemma copy_fcurve_empty_source:
  assumes i: "i < length f" and src: "prefix (source_prefix S) (data_path (f ! i))"
    and idx: "0 \<le> array_index (f ! i)" "array_index (f ! i) < int (length axes)"
    and am: "axis_mapping (axes ! nat (array_index (f ! i))) = Some (j, s)"
    and empty: "keyframe_points (f ! i) = []"
  shows "(WARNING, NoKeyframeData (array_index (f ! i))) \<in>
           set (snd (copy_fcurve new S T axes ra (f, l) i))"
proof -
  let ?p = "bone_path T (last_component (data_path (f ! i)))"
  have "keyframe_points
          ((if ra then (case find_fcurve ?p j f of Some k \<Rightarrow> f | None \<Rightarrow> fcurves_new ?p j f)
                        [(case find_fcurve ?p j f of Some k \<Rightarrow> k | None \<Rightarrow> length f) :=
                           kp_clear ((case find_fcurve ?p j f of Some k \<Rightarrow> f
                                      | None \<Rightarrow> fcurves_new ?p j f) !
                                     (case find_fcurve ?p j f of Some k \<Rightarrow> k | None \<Rightarrow> length f))]
            else (case find_fcurve ?p j f of Some k \<Rightarrow> f | None \<Rightarrow> fcurves_new ?p j f)) ! i) = []"
    using i empty
    by (auto simp: nth_list_update nth_append fcurves_new_def kp_clear_def
          split: option.splits dest: find_fcurve_Some)
  then show ?thesis
    using src idx am
    by (auto simp: copy_fcurve_def Let_def split: option.splits)
qed


lemma after_writes_hit:
  "\<exists>w \<in> set ws. fst w = K \<Longrightarrow> \<exists>kps. after_writes new ra K ws ch = Some kps"
proof (induction ws arbitrary: ch rule: rev_induct)
  case Nil
  then show ?case by simp
next
  case (snoc x ws)
  show ?case
  proof (cases "fst x = K")
    case True
    then show ?thesis by (simp add: after_writes_append)
  next
    case False
    with snoc.prems have "\<exists>w \<in> set ws. fst w = K" by auto
    from snoc.IH[OF this, of ch] False show ?thesis by (auto simp: after_writes_append)
  qed
qed

lemma foldl_copy_keyframe_reports:
  "q \<in> set pts \<Longrightarrow>
   (INFO, TargetKeyInfo (fst (co q)) (snd (co q) * of_int s) j) \<in>
     set (snd (foldl (copy_keyframe new k j s) st pts))"
proof (induction pts arbitrary: st)
  case Nil
  then show ?case by simp
next
  case (Cons p pts)
  show ?case
  proof (cases "q = p")
    case True
    have "(INFO, TargetKeyInfo (fst (co q)) (snd (co q) * of_int s) j) \<in>
            set (snd (copy_keyframe new k j s st p))"
      using True by (simp add: copy_keyframe_def Let_def)
    with foldl_copy_keyframe_log[of new k j s "copy_keyframe new k j s st p" pts]
    show ?thesis by auto
  next
    case False
    with Cons show ?thesis by simp
  qed
qed

lemma copy_fcurve_reports:
  assumes i: "i < length f" and src: "prefix (source_prefix S) (data_path (f ! i))"
    and idx: "0 \<le> array_index (f ! i)" "array_index (f ! i) < int (length axes)"
    and am: "axis_mapping (axes ! nat (array_index (f ! i))) = Some (j, s)"
    and na: "find_fcurve (bone_path T (last_component (data_path (f ! i)))) j f \<noteq> Some i"
    and q: "q \<in> set (keyframe_points (f ! i))"
  shows "(INFO, TargetKeyInfo (fst (co q)) (snd (co q) * of_int s) j) \<in>
           set (snd (copy_fcurve new S T axes ra (f, l) i))"
proof -
  let ?p = "bone_path T (last_component (data_path (f ! i)))"
  let ?l1 = "l @ [(INFO, MappingInfo (array_index (f ! i)) (axes ! nat (array_index (f ! i))) j s)]"
  from q have ne: "keyframe_points (f ! i) \<noteq> []" by auto
  show ?thesis
  proof (cases "find_fcurve ?p j f")
    case None
    with src idx am ne i show ?thesis
      by (cases ra)
         (simp_all add: copy_fcurve_def Let_def fcurves_new_def nth_append
            foldl_copy_keyframe_reports[OF q])
  next
    case (Some k)
    with na have "k \<noteq> i" by simp
    with Some src idx am ne i show ?thesis
      by (cases ra) (simp_all add: copy_fcurve_def Let_def foldl_copy_keyframe_reports[OF q])
  qed
qed


lemma copy_loop_reach:
  assumes sep: "\<And>p. \<not> prefix (source_prefix S) (bone_path T p)" and i: "i < length fcs"
  obtains f l where "foldl (copy_fcurve new S T axes ra) (fcs, lg) [0..<i] = (f, l)"
    and "extends S fcs f"
    and "copy_fcurves new S T axes ra (fcs, lg) =
           foldl (copy_fcurve new S T axes ra) (copy_fcurve new S T axes ra (f, l) i)
             [Suc i..<length fcs]"
proof -
  let ?step = "copy_fcurve new S T axes ra"
  obtain f l where st: "foldl ?step (fcs, lg) [0..<i] = (f, l)"
    by (cases "foldl ?step (fcs, lg) [0..<i]")
  from copy_loop_prefix[OF sep, of i fcs new axes ra lg] i st
  have e: "extends S fcs f" by auto
  have "[0..<length fcs] = [0..<i] @ i # [Suc i..<length fcs]"
    using i upt_add_eq_append[of 0 i "length fcs - i"] by (simp add: upt_conv_Cons)
  then have "copy_fcurves new S T axes ra (fcs, lg) =
             foldl ?step (?step (f, l) i) [Suc i..<length fcs]"
    using st by (simp add: copy_fcurves_def)
  with st e show ?thesis by (rule that)
qed

text \<open>
  Claim C1. Let the two bones have different plain names, and let the action hold a
  location curve of the source bone at an axis index within range whose axis label resolves
  to target index \<open>j\<close> and sign \<open>s\<close>. Then for every point of that curve the transfer loop
  inserts, and reports, the point's frame with its value times \<open>s\<close> on the location channel
  \<open>j\<close> of the target bone, and that channel exists afterwards. When no other curve is
  mapped to the same target channel, the channel afterwards is the result of inserting
  these frames and values in order (into the empty channel when replace-all is set or the
  channel was absent, into its previous points otherwise), and when the frames of the
  source curve are distinct it has a point at that frame with that value for every source
  point. The witness is the example of the specification, for the loop and for the copy
  operator.
\<close>

theorem transfer_inserts_scaled_points:
  assumes "plain_name S" and "plain_name T" and "S \<noteq> T"
    and "i < length fcs"
    and "data_path (fcs ! i) = bone_path S ''location''"
    and "0 \<le> array_index (fcs ! i)" and "array_index (fcs ! i) < int (length axes)"
    and "axis_mapping (axes ! nat (array_index (fcs ! i))) = Some (j, s)"
  shows "(\<forall>q \<in> set (keyframe_points (fcs ! i)).
            (INFO, TargetKeyInfo (fst (co q)) (snd (co q) * of_int s) j) \<in>
              set (snd (copy_fcurves new S T axes ra (fcs, lg)))) \<and>
         (\<exists>kps. channel (bone_path T ''location'') j
                  (fst (copy_fcurves new S T axes ra (fcs, lg))) = Some kps \<and>
            (sole_source S T axes fcs i \<longrightarrow>
               kps = insert_all new (scaled_points s (keyframe_points (fcs ! i)))
                       (if ra then []
                        else (case channel (bone_path T ''location'') j fcs of
                                None \<Rightarrow> [] | Some old \<Rightarrow> old)) \<and>
               (distinct (map (\<lambda>k. fst (co k)) (keyframe_points (fcs ! i))) \<longrightarrow>
                  (\<forall>q \<in> set (keyframe_points (fcs ! i)).
                     \<exists>k \<in> set kps. co k = (fst (co q), snd (co q) * of_int s)))))"
proof -
  have sep: "\<And>p. \<not> prefix (source_prefix S) (bone_path T p)"
    using assms(1-3) by (rule separate_paths)
  let ?K = "(bone_path T ''location'', j)"
  let ?w = "(?K, s, keyframe_points (fcs ! i))"
  let ?R = "copy_fcurves new S T axes ra (fcs, lg)"
  have lc: "last_component (data_path (fcs ! i)) = ''location''"
    using assms(5) by (simp add: last_component_bone_path)
  have src: "prefix (source_prefix S) (data_path (fcs ! i))"
    using assms(5) by (simp add: source_prefix_def)
  have t: "transfer_of S T axes (fcs ! i) = Some ?w"
    using assms(6-8) src lc by (simp add: transfer_of_def)
  \<comment> \<open>every insert is reported\<close>
  have reports: "(INFO, TargetKeyInfo (fst (co q)) (snd (co q) * of_int s) j) \<in> set (snd ?R)"
    if q: "q \<in> set (keyframe_points (fcs ! i))" for q
  proof -
    obtain f l where
      "foldl (copy_fcurve new S T axes ra) (fcs, lg) [0..<i] = (f, l)" and
      e: "extends S fcs f" and
      r: "?R = foldl (copy_fcurve new S T axes ra) (copy_fcurve new S T axes ra (f, l) i)
                 [Suc i..<length fcs]"
      by (rule copy_loop_reach[OF sep assms(4)])
    from e assms(4) src have fi: "f ! i = fcs ! i" and il: "i < length f"
      by (auto simp: extends_def)
    have na: "find_fcurve (bone_path T (last_component (data_path (f ! i)))) j f \<noteq> Some i"
    proof
      assume "find_fcurve (bone_path T (last_component (data_path (f ! i)))) j f = Some i"
      from find_fcurve_Some[OF this]
      have "data_path (f ! i) = bone_path T (last_component (data_path (f ! i)))" by simp
      with src fi have "prefix (source_prefix S)
          (bone_path T (last_component (data_path (f ! i))))"
        by simp
      with sep show False by blast
    qed
    have "(INFO, TargetKeyInfo (fst (co q)) (snd (co q) * of_int s) j) \<in>
            set (snd (copy_fcurve new S T axes ra (f, l) i))"
      using copy_fcurve_reports[of i f S axes j s T q new ra l] il src assms(6-8) na q fi
      by simp
    with copy_loop_log[of new S T axes ra "copy_fcurve new S T axes ra (f, l) i"
        "[Suc i..<length fcs]"] r
    show ?thesis by auto
  qed
  \<comment> \<open>the target channel afterwards\<close>
  have "?w \<in> set (transfers S T axes fcs)"
    using t assms(4) by (auto simp: set_transfers intro!: bexI[of _ "fcs ! i"])
  then have "\<exists>w \<in> set (transfers S T axes fcs). fst w = ?K" by (rule bexI[rotated]) simp
  from after_writes_hit[OF this, of new ra "channel (bone_path T ''location'') j fcs"]
  obtain kps where kps: "channel (bone_path T ''location'') j (fst ?R) = Some kps"
    by (auto simp: channel_copy_fcurves[OF sep])
  let ?ins = "insert_all new (scaled_points s (keyframe_points (fcs ! i)))
                (if ra then []
                 else (case channel (bone_path T ''location'') j fcs of
                         None \<Rightarrow> [] | Some old \<Rightarrow> old))"
  have exact: "kps = ?ins" if sole: "sole_source S T axes fcs i"
    using after_writes_sole[OF assms(4) t sole, of new ra
        "channel (bone_path T ''location'') j fcs"] kps
    by (simp add: channel_copy_fcurves[OF sep])
  have each: "\<exists>k \<in> set ?ins. co k = (fst (co q), snd (co q) * of_int s)"
    if d: "distinct (map (\<lambda>k. fst (co k)) (keyframe_points (fcs ! i)))"
      and q: "q \<in> set (keyframe_points (fcs ! i))" for q
  proof -
    from d have "distinct (map fst (scaled_points s (keyframe_points (fcs ! i))))"
      by (simp add: scaled_points_def comp_def)
    moreover from q have "(fst (co q), snd (co q) * of_int s) \<in>
        set (scaled_points s (keyframe_points (fcs ! i)))"
      by (auto simp: scaled_points_def)
    ultimately show ?thesis by (rule insert_all_has)
  qed
  from reports kps exact each show ?thesis by blast
qed

text \<open>
  Claim C3. Let the two bones have different plain names and let the target channel
  \<open>(p, j)\<close> exist before the transfer with the points \<open>old\<close>. With replace-all set, if
  some curve is mapped to the channel, then afterwards the channel is what inserting the
  scaled points of one such curve into the empty channel gives; no old point whose frame
  is not a frame of that curve remains. With replace-all not set, every old point at a
  frame where no curve mapped to the channel has a point is still a point of the channel,
  unchanged.
\<close>

theorem transfer_replace_all:
  assumes "plain_name S" and "plain_name T" and "S \<noteq> T"
    and "channel p j fcs = Some old"
  shows "if ra
         then (\<exists>fc \<in> set fcs. \<exists>s pts. transfer_of S T axes fc = Some ((p, j), s, pts)) \<longrightarrow>
              (\<exists>fc \<in> set fcs. \<exists>s pts kps.
                 transfer_of S T axes fc = Some ((p, j), s, pts) \<and>
                 channel p j (fst (copy_fcurves new S T axes ra (fcs, lg))) = Some kps \<and>
                 kps = insert_all new (scaled_points s pts) [] \<and>
                 (\<forall>k0 \<in> set old. fst (co k0) \<notin> (\<lambda>q. fst (co q)) ` set pts \<longrightarrow> k0 \<notin> set kps))
         else (\<forall>k0 \<in> set old.
                 (\<forall>fc \<in> set fcs. \<forall>s pts. transfer_of S T axes fc = Some ((p, j), s, pts) \<longrightarrow>
                    fst (co k0) \<notin> (\<lambda>q. fst (co q)) ` set pts) \<longrightarrow>
                 (\<exists>kps. channel p j (fst (copy_fcurves new S T axes ra (fcs, lg))) = Some kps \<and>
                    k0 \<in> set kps))"
proof -
  have sep: "\<And>p. \<not> prefix (source_prefix S) (bone_path T p)"
    using assms(1-3) by (rule separate_paths)
  note c = channel_copy_fcurves[OF sep, of p j new axes ra fcs lg]
  show ?thesis
  proof (cases ra)
    case True
    have "\<exists>fc \<in> set fcs. \<exists>s pts kps.
            transfer_of S T axes fc = Some ((p, j), s, pts) \<and>
            channel p j (fst (copy_fcurves new S T axes ra (fcs, lg))) = Some kps \<and>
            kps = insert_all new (scaled_points s pts) [] \<and>
            (\<forall>k0 \<in> set old. fst (co k0) \<notin> (\<lambda>q. fst (co q)) ` set pts \<longrightarrow> k0 \<notin> set kps)"
      if "\<exists>fc \<in> set fcs. \<exists>s pts. transfer_of S T axes fc = Some ((p, j), s, pts)"
    proof -
      from that obtain fc0 s0 pts0 where "fc0 \<in> set fcs"
        "transfer_of S T axes fc0 = Some ((p, j), s0, pts0)"
        by blast
      then have "((p, j), s0, pts0) \<in> set (transfers S T axes fcs)"
        unfolding set_transfers by blast
      then have "\<exists>w \<in> set (transfers S T axes fcs). fst w = (p, j)"
        by (rule bexI[rotated]) simp
      from after_writes_replace[OF this, of new "channel p j fcs"]
      obtain w where w: "w \<in> set (transfers S T axes fcs)" "fst w = (p, j)"
        "after_writes new True (p, j) (transfers S T axes fcs) (channel p j fcs) =
           Some (insert_all new (scaled_points (fst (snd w)) (snd (snd w))) [])"
        by blast
      obtain s pts where weq: "w = ((p, j), s, pts)"
        using w(2) by (cases w) auto
      from w(1) obtain fc where fc: "fc \<in> set fcs" "transfer_of S T axes fc = Some ((p, j), s, pts)"
        unfolding set_transfers weq by blast
      let ?kps = "insert_all new (scaled_points s pts) []"
      have gone: "k0 \<notin> set ?kps" if "fst (co k0) \<notin> (\<lambda>q. fst (co q)) ` set pts" for k0
      proof
        assume "k0 \<in> set ?kps"
        from insert_all_origin[OF this] have "co k0 \<in> set (scaled_points s pts)" by simp
        then have "fst (co k0) \<in> fst ` set (scaled_points s pts)" by (rule imageI)
        with that show False by (simp only: frames_scaled_points)
      qed
      have ch: "channel p j (fst (copy_fcurves new S T axes ra (fcs, lg))) = Some ?kps"
        using c w(3) True weq by simp
      show ?thesis
        by (rule bexI[OF _ fc(1)], intro exI[of _ s] exI[of _ pts] exI[of _ ?kps] conjI)
           (use fc(2) ch gone in blast)+
    qed
    with True show ?thesis by simp
  next
    case False
    have "\<exists>kps. channel p j (fst (copy_fcurves new S T axes ra (fcs, lg))) = Some kps \<and> k0 \<in> set kps"
      if k0: "k0 \<in> set old"
        and away: "\<forall>fc \<in> set fcs. \<forall>s pts. transfer_of S T axes fc = Some ((p, j), s, pts) \<longrightarrow>
                    fst (co k0) \<notin> (\<lambda>q. fst (co q)) ` set pts" for k0
    proof -
      have "\<forall>w \<in> set (transfers S T axes fcs).
              fst w = (p, j) \<longrightarrow> fst (co k0) \<notin> (\<lambda>q. fst (co q)) ` set (snd (snd w))"
      proof (intro ballI impI)
        fix w assume w: "w \<in> set (transfers S T axes fcs)" "fst w = (p, j)"
        obtain s pts where weq: "w = ((p, j), s, pts)"
          using w(2) by (cases w) auto
        from w(1) obtain fc where "fc \<in> set fcs" "transfer_of S T axes fc = Some ((p, j), s, pts)"
          unfolding set_transfers weq by blast
        with away have "fst (co k0) \<notin> (\<lambda>q. fst (co q)) ` set pts" by blast
        then show "fst (co k0) \<notin> (\<lambda>q. fst (co q)) ` set (snd (snd w))" by (simp add: weq)
      qed
      from after_writes_keeps[OF k0 this, of new] obtain kps where
        "after_writes new False (p, j) (transfers S T axes fcs) (Some old) = Some kps" "k0 \<in> set kps"
        by blast
      with c False assms(4) show ?thesis by simp
    qed
    with False show ?thesis by simp
  qed
qed


text \<open>
  Claim C10. With replace-all set, let the action hold a location curve of the source
  bone without keyframe points, at an axis index within range and with a valid axis label.
  Then the warning that no keyframe data was found for that axis index is reported, and
  once the loop has visited the curve the target channel exists and has no keyframe
  points. When no other curve is mapped to the same target channel, the channel is in that
  state at the end of the loop, and the F-curves differ from those before the loop unless
  the target channel was already there and empty.
\<close>

theorem transfer_clears_for_empty_source:
  assumes "plain_name S" and "plain_name T" and "S \<noteq> T"
    and "i < length fcs"
    and "data_path (fcs ! i) = bone_path S ''location''"
    and "0 \<le> array_index (fcs ! i)" and "array_index (fcs ! i) < int (length axes)"
    and "axis_mapping (axes ! nat (array_index (fcs ! i))) = Some (j, s)"
    and "keyframe_points (fcs ! i) = []"
  shows "(WARNING, NoKeyframeData (array_index (fcs ! i))) \<in>
           set (snd (copy_fcurves new S T axes True (fcs, lg))) \<and>
         channel (bone_path T ''location'') j
           (fst (foldl (copy_fcurve new S T axes True) (fcs, lg) [0..<Suc i])) = Some [] \<and>
         (sole_source S T axes fcs i \<longrightarrow>
            channel (bone_path T ''location'') j
              (fst (copy_fcurves new S T axes True (fcs, lg))) = Some [] \<and>
            (channel (bone_path T ''location'') j fcs \<noteq> Some [] \<longrightarrow>
               fst (copy_fcurves new S T axes True (fcs, lg)) \<noteq> fcs))"
proof -
  have sep: "\<And>p. \<not> prefix (source_prefix S) (bone_path T p)"
    using assms(1-3) by (rule separate_paths)
  let ?K = "(bone_path T ''location'', j)"
  let ?w = "(?K, s, keyframe_points (fcs ! i))"
  let ?R = "copy_fcurves new S T axes True (fcs, lg)"
  have src: "prefix (source_prefix S) (data_path (fcs ! i))"
    using assms(5) by (simp add: source_prefix_def)
  have t: "transfer_of S T axes (fcs ! i) = Some ?w"
    using assms(5-8) src by (simp add: transfer_of_def last_component_bone_path)
  \<comment> \<open>the warning\<close>
  obtain f l where
    "foldl (copy_fcurve new S T axes True) (fcs, lg) [0..<i] = (f, l)" and
    e: "extends S fcs f" and
    r: "?R = foldl (copy_fcurve new S T axes True) (copy_fcurve new S T axes True (f, l) i)
               [Suc i..<length fcs]"
    by (rule copy_loop_reach[OF sep assms(4)])
  from e assms(4) src have fi: "f ! i = fcs ! i" and il: "i < length f"
    by (auto simp: extends_def)
  have "(WARNING, NoKeyframeData (array_index (fcs ! i))) \<in>
          set (snd (copy_fcurve new S T axes True (f, l) i))"
    using copy_fcurve_empty_source[of i f S axes j s new T True l] il src assms(6-9) fi
    by simp
  with copy_loop_log[of new S T axes True "copy_fcurve new S T axes True (f, l) i"
      "[Suc i..<length fcs]"] r
  have warn: "(WARNING, NoKeyframeData (array_index (fcs ! i))) \<in> set (snd ?R)" by auto
  \<comment> \<open>the target channel once the curve has been visited\<close>
  have tk: "take (Suc i) fcs = take i fcs @ [fcs ! i]"
    using assms(4) by (simp add: take_Suc_conv_app_nth)
  from copy_loop_prefix[OF sep Suc_leI[OF assms(4)], of new axes True lg]
  have eq: "fst (foldl (copy_fcurve new S T axes True) (fcs, lg) [0..<Suc i]) =
            foldl (write_channel new True) fcs (transfers S T axes (take (Suc i) fcs))"
    by blast
  have mid: "channel (bone_path T ''location'') j
               (fst (foldl (copy_fcurve new S T axes True) (fcs, lg) [0..<Suc i])) = Some []"
    unfolding eq using assms(9) t
    by (simp add: channel_write_channel tk transfers_snoc scaled_points_def)
  \<comment> \<open>the target channel at the end\<close>
  have fin: "channel (bone_path T ''location'') j (fst ?R) = Some []"
    if sole: "sole_source S T axes fcs i"
    using after_writes_sole[OF assms(4) t sole, of new True
        "channel (bone_path T ''location'') j fcs"] assms(9)
    by (simp add: channel_copy_fcurves[OF sep] scaled_points_def)
  from warn mid fin show ?thesis by auto
qed


lemmas transfer_eval =
  copy_fcurves_def copy_fcurve_def source_prefix_def axis_mapping_def fcurves_new_def
  kp_clear_def copy_keyframe_def flat_point_def channel_def Let_def bone_path_def
  last_component_def

theorem transfer_inserts_scaled_points_witness:
  "plain_name ''Hand'' \<and> plain_name ''Foot'' \<and> ''Hand'' \<noteq> ''Foot'' \<and>
   0 < length hand_fcs \<and> data_path (hand_fcs ! 0) = bone_path ''Hand'' ''location'' \<and>
   array_index (hand_fcs ! 0) = 0 \<and>
   axis_mapping ([''Y-'', ''X+'', ''Z+''] ! 0) = Some (1, -1) \<and>
   map co (keyframe_points (hand_fcs ! 0)) = [(1, 2), (10, -3)] \<and>
   sole_source ''Hand'' ''Foot'' [''Y-'', ''X+'', ''Z+''] hand_fcs 0 \<and>
   (INFO, TargetKeyInfo 1 (-2) 1) \<in>
     set (snd (copy_fcurves flat_point ''Hand'' ''Foot'' [''Y-'', ''X+'', ''Z+''] True
                 (hand_fcs, []))) \<and>
   (INFO, TargetKeyInfo 10 3 1) \<in>
     set (snd (copy_fcurves flat_point ''Hand'' ''Foot'' [''Y-'', ''X+'', ''Z+''] True
                 (hand_fcs, []))) \<and>
   map_option (map co)
     (channel (bone_path ''Foot'' ''location'') 1
        (fst (copy_fcurves flat_point ''Hand'' ''Foot'' [''Y-'', ''X+'', ''Z+''] True
               (hand_fcs, [])))) = Some [(1, -2), (10, 3)] \<and>
   map_option (map co)
     (channel (bone_path ''Foot'' ''location'') 1
        (the (ctx_fcurves (res_ctx (CopyBoneKeyframesOperator_execute flat_point ''X'' False hand_ctx))))) =
     Some [(1, -2), (10, 3)]"
proof -
  have h: "plain_name ''Hand''" "plain_name ''Foot''" "''Hand'' \<noteq> ''Foot''"
    "0 < length hand_fcs" "data_path (hand_fcs ! 0) = bone_path ''Hand'' ''location''"
    "0 \<le> array_index (hand_fcs ! 0)"
    "array_index (hand_fcs ! 0) < int (length [''Y-'', ''X+'', ''Z+''])"
    "axis_mapping ([''Y-'', ''X+'', ''Z+''] ! nat (array_index (hand_fcs ! 0))) = Some (1, -1)"
    by (simp_all add: plain_name_def hand_fcs_def axis_mapping_def)
  have sole: "sole_source ''Hand'' ''Foot'' [''Y-'', ''X+'', ''Z+''] hand_fcs 0"
    by (simp add: sole_source_def hand_fcs_def)
  have pts: "keyframe_points (hand_fcs ! 0) = [flat_point 1 2, flat_point 10 (-3)]"
    by (simp add: hand_fcs_def)
  have e: "CopyBoneKeyframesOperator_execute flat_point ''X'' False hand_ctx =
           finish (set_fcurves hand_ctx (armature [''Hand'', ''Foot''] hand_fcs)
                     (fst (copy_fcurves flat_point ''Hand'' ''Foot'' [''Y-'', ''X+'', ''Z+''] True
                            (hand_fcs, []))))
             (snd (copy_fcurves flat_point ''Hand'' ''Foot'' [''Y-'', ''X+'', ''Z+''] True
                     (hand_fcs, [])) @ [(INFO, CopiedAxis ''X'')])"
    by (simp add: CopyBoneKeyframesOperator_execute_def hand_ctx_def armature_def primary_profile_def
          default_scene_def Let_def)
  note t = transfer_inserts_scaled_points[OF h, of flat_point True "[]"]
  from t have r: "(INFO, TargetKeyInfo 1 (-2) 1) \<in>
     set (snd (copy_fcurves flat_point ''Hand'' ''Foot'' [''Y-'', ''X+'', ''Z+''] True
                 (hand_fcs, [])))"
    "(INFO, TargetKeyInfo 10 3 1) \<in>
     set (snd (copy_fcurves flat_point ''Hand'' ''Foot'' [''Y-'', ''X+'', ''Z+''] True
                 (hand_fcs, [])))"
    unfolding pts by (simp_all add: flat_point_def)
  from t sole have c: "map_option (map co)
     (channel (bone_path ''Foot'' ''location'') 1
        (fst (copy_fcurves flat_point ''Hand'' ''Foot'' [''Y-'', ''X+'', ''Z+''] True
               (hand_fcs, [])))) = Some [(1, -2), (10, 3)]"
    unfolding pts by (auto simp: scaled_points_def insert_all_def flat_point_def)
  from h sole r c e show ?thesis
    by (simp add: hand_fcs_def axis_mapping_def flat_point_def finish_def set_fcurves_def
          ctx_fcurves_def)
qed

theorem transfer_replace_all_witness:
  "plain_name ''Hand'' \<and> plain_name ''Foot'' \<and> ''Hand'' \<noteq> ''Foot'' \<and>
   channel (bone_path ''Foot'' ''location'') 1 foot_fcs = Some [flat_point 5 99] \<and>
   transfer_of ''Hand'' ''Foot'' [''X+'', ''Y+'', ''Z+''] (foot_fcs ! 0) =
     Some ((bone_path ''Foot'' ''location'', 1), 1, [flat_point 1 2]) \<and>
   channel (bone_path ''Foot'' ''location'') 1
     (fst (copy_fcurves flat_point ''Hand'' ''Foot'' [''X+'', ''Y+'', ''Z+''] True (foot_fcs, []))) =
     Some [flat_point 1 2] \<and>
   channel (bone_path ''Foot'' ''location'') 1
     (fst (copy_fcurves flat_point ''Hand'' ''Foot'' [''X+'', ''Y+'', ''Z+''] False (foot_fcs, []))) =
     Some [flat_point 1 2, flat_point 5 99]"
proof -
  have h: "plain_name ''Hand''" "plain_name ''Foot''" "''Hand'' \<noteq> ''Foot''"
    "channel (bone_path ''Foot'' ''location'') 1 foot_fcs = Some [flat_point 5 99]"
    by (simp_all add: plain_name_def foot_fcs_def channel_def bone_path_def)
  have t: "transfer_of ''Hand'' ''Foot'' [''X+'', ''Y+'', ''Z+''] (foot_fcs ! 0) =
     Some ((bone_path ''Foot'' ''location'', 1), 1, [flat_point 1 2])"
    by (simp add: transfer_of_def foot_fcs_def source_prefix_def axis_mapping_def
          bone_path_def last_component_def)
  note a = transfer_replace_all[OF h, of True "[''X+'', ''Y+'', ''Z+'']" flat_point "[]"]
  note b = transfer_replace_all[OF h, of False "[''X+'', ''Y+'', ''Z+'']" flat_point "[]"]
  have "channel (bone_path ''Foot'' ''location'') 1
     (fst (copy_fcurves flat_point ''Hand'' ''Foot'' [''X+'', ''Y+'', ''Z+''] True (foot_fcs, []))) =
     Some [flat_point 1 2]"
    using a by (simp add: foot_fcs_def transfer_eval)
  moreover have "channel (bone_path ''Foot'' ''location'') 1
     (fst (copy_fcurves flat_point ''Hand'' ''Foot'' [''X+'', ''Y+'', ''Z+''] False (foot_fcs, []))) =
     Some [flat_point 1 2, flat_point 5 99]"
    using b by (simp add: foot_fcs_def transfer_eval)
  ultimately show ?thesis using h t by simp
qed

theorem transfer_clears_for_empty_source_witness:
  "plain_name ''Hand'' \<and> plain_name ''Foot'' \<and> ''Hand'' \<noteq> ''Foot'' \<and>
   0 < length idle_fcs \<and> data_path (idle_fcs ! 0) = bone_path ''Hand'' ''location'' \<and>
   array_index (idle_fcs ! 0) = 0 \<and>
   axis_mapping ([''X+'', ''Y+'', ''Z+''] ! 0) = Some (0, 1) \<and>
   keyframe_points (idle_fcs ! 0) = [] \<and>
   sole_source ''Hand'' ''Foot'' [''X+'', ''Y+'', ''Z+''] idle_fcs 0 \<and>
   channel (bone_path ''Foot'' ''location'') 0 idle_fcs = Some [flat_point 5 99] \<and>
   channel (bone_path ''Foot'' ''location'') 0
     (fst (copy_fcurves flat_point ''Hand'' ''Foot'' [''X+'', ''Y+'', ''Z+''] True (idle_fcs, []))) =
     Some [] \<and>
   (WARNING, NoKeyframeData 0) \<in>
     set (snd (copy_fcurves flat_point ''Hand'' ''Foot'' [''X+'', ''Y+'', ''Z+''] True (idle_fcs, []))) \<and>
   fst (copy_fcurves flat_point ''Hand'' ''Foot'' [''X+'', ''Y+'', ''Z+''] True (idle_fcs, [])) \<noteq>
     idle_fcs"
proof -
  have h: "plain_name ''Hand''" "plain_name ''Foot''" "''Hand'' \<noteq> ''Foot''"
    "0 < length idle_fcs" "data_path (idle_fcs ! 0) = bone_path ''Hand'' ''location''"
    "0 \<le> array_index (idle_fcs ! 0)"
    "array_index (idle_fcs ! 0) < int (length [''X+'', ''Y+'', ''Z+''])"
    "axis_mapping ([''X+'', ''Y+'', ''Z+''] ! nat (array_index (idle_fcs ! 0))) = Some (0, 1)"
    "keyframe_points (idle_fcs ! 0) = []"
    by (simp_all add: plain_name_def idle_fcs_def axis_mapping_def)
  have sole: "sole_source ''Hand'' ''Foot'' [''X+'', ''Y+'', ''Z+''] idle_fcs 0"
    by (simp add: idle_fcs_def sole_source_def transfer_of_def source_prefix_def bone_path_def
          axis_mapping_def)
  have c: "channel (bone_path ''Foot'' ''location'') 0 idle_fcs = Some [flat_point 5 99]"
    by (simp add: idle_fcs_def channel_def bone_path_def)
  from transfer_clears_for_empty_source[OF h, of flat_point "[]"] h sole c show ?thesis
    by (simp add: idle_fcs_def axis_mapping_def)
qed

subsection \<open>Copying once and copying for all axes\<close>

lemma kp_insert_commute:
  "t1 \<noteq> t2 \<Longrightarrow>
   kp_insert new t1 v1 (kp_insert new t2 v2 kps) = kp_insert new t2 v2 (kp_insert new t1 v1 kps)"
  by (induction kps) auto

lemma kp_insert_overwrite:
  "present t kps \<Longrightarrow> kp_insert new t v (kp_insert new t v' kps) = kp_insert new t v kps"
  by (induction kps) (auto split: if_splits)

lemma kp_insert_twice: "kp_insert new t v (kp_insert new t v kps) = kp_insert new t v kps"
  by (induction kps) auto

lemma present_kp_insert: "present t (kp_insert new t v kps)"
  by (induction kps) auto

lemma present_kp_insert_other: "present t kps \<Longrightarrow> present t (kp_insert new t' v' kps)"
  by (induction kps) (auto split: if_splits)

lemma present_insert_all: "present t kps \<Longrightarrow> present t (insert_all new ps kps)"
  by (induction ps arbitrary: kps) (simp_all add: insert_all_Cons present_kp_insert_other)

lemma present_insert_all_frame: "t \<in> fst ` set ps \<Longrightarrow> present t (insert_all new ps kps)"
proof (induction ps arbitrary: kps)
  case Nil
  then show ?case by simp
next
  case (Cons p ps)
  show ?case
  proof (cases "fst p = t")
    case True
    then show ?thesis
      using present_insert_all[OF present_kp_insert[of t new "snd p" kps], of new ps]
      by (simp add: insert_all_Cons)
  next
    case False
    with Cons show ?thesis by (auto simp: insert_all_Cons)
  qed
qed

lemma insert_all_commute:
  "t \<notin> fst ` set ps \<Longrightarrow>
   insert_all new ps (kp_insert new t v kps) = kp_insert new t v (insert_all new ps kps)"
proof (induction ps arbitrary: kps)
  case Nil
  then show ?case by simp
next
  case (Cons p ps)
  then have "fst p \<noteq> t" "t \<notin> fst ` set ps" by auto
  then show ?case
    using Cons.IH[of "kp_insert new (fst p) (snd p) kps"]
    by (simp add: insert_all_Cons kp_insert_commute[of "fst p" t])
qed

lemma insert_all_absorb:
  "present t kps \<Longrightarrow>
   kp_insert new t v (insert_all new ps (kp_insert new t v' kps)) =
   kp_insert new t v (insert_all new ps kps)"
proof (induction ps arbitrary: kps v')
  case Nil
  then show ?case by (simp add: kp_insert_overwrite)
next
  case (Cons p ps)
  show ?case
  proof (cases "fst p = t")
    case True
    with Cons.prems show ?thesis by (simp add: insert_all_Cons kp_insert_overwrite)
  next
    case False
    have "kp_insert new (fst p) (snd p) (kp_insert new t v' kps) =
          kp_insert new t v' (kp_insert new (fst p) (snd p) kps)"
      using False by (rule kp_insert_commute)
    moreover have "present t (kp_insert new (fst p) (snd p) kps)"
      using Cons.prems by (rule present_kp_insert_other)
    ultimately show ?thesis using Cons.IH by (simp add: insert_all_Cons)
  qed
qed

lemma insert_all_idem: "insert_all new ps (insert_all new ps kps) = insert_all new ps kps"
proof (induction ps arbitrary: kps rule: rev_induct)
  case Nil
  then show ?case by simp
next
  case (snoc p ps)
  let ?zs = "insert_all new ps kps"
  have "insert_all new (ps @ [p]) (insert_all new (ps @ [p]) kps) =
        kp_insert new (fst p) (snd p) (insert_all new ps (kp_insert new (fst p) (snd p) ?zs))"
    by (simp add: insert_all_append insert_all_Cons)
  also have "\<dots> = kp_insert new (fst p) (snd p) ?zs"
  proof (cases "fst p \<in> fst ` set ps")
    case True
    then have "present (fst p) ?zs" by (rule present_insert_all_frame)
    then show ?thesis by (simp add: insert_all_absorb snoc.IH)
  next
    case False
    then show ?thesis by (simp add: insert_all_commute snoc.IH kp_insert_twice)
  qed
  finally show ?case by (simp add: insert_all_append insert_all_Cons)
qed


lemma hit_points_miss: "\<forall>w \<in> set ws. fst w \<noteq> K \<Longrightarrow> hit_points K ws = []"
  by (induction ws) (simp_all add: hit_points_def)

lemma after_writes_merge:
  "after_writes new False K ws ch =
     (if \<exists>w \<in> set ws. fst w = K
      then Some (insert_all new (hit_points K ws) (case ch of None \<Rightarrow> [] | Some kps \<Rightarrow> kps))
      else ch)"
proof (induction ws arbitrary: ch)
  case Nil
  then show ?case by simp
next
  case (Cons w ws)
  show ?case
  proof (cases "fst w = K")
    case True
    then show ?thesis
      by (simp add: Cons.IH hit_points_def insert_all_append hit_points_miss[unfolded hit_points_def])
  next
    case False
    then show ?thesis by (simp add: Cons.IH hit_points_def)
  qed
qed

lemma after_writes_replace_any:
  "\<exists>w \<in> set ws. fst w = K \<Longrightarrow>
   after_writes new True K ws ch = after_writes new True K ws ch'"
proof (induction ws arbitrary: ch ch' rule: rev_induct)
  case Nil
  then show ?case by simp
next
  case (snoc x ws)
  show ?case
  proof (cases "fst x = K")
    case True
    then show ?thesis by (simp add: after_writes_append)
  next
    case False
    with snoc.prems have "\<exists>w \<in> set ws. fst w = K" by auto
    from snoc.IH[OF this, of ch ch'] False show ?thesis by (simp add: after_writes_append)
  qed
qed

lemma after_writes_idem:
  "after_writes new ra K ws (after_writes new ra K ws ch) = after_writes new ra K ws ch"
proof (cases "\<exists>w \<in> set ws. fst w = K")
  case False
  then show ?thesis by (simp add: after_writes_miss)
next
  case True
  show ?thesis
  proof (cases ra)
    case True
    with \<open>\<exists>w \<in> set ws. fst w = K\<close> show ?thesis
      using after_writes_replace_any[of ws K new "after_writes new True K ws ch" ch] by simp
  next
    case False
    with \<open>\<exists>w \<in> set ws. fst w = K\<close> show ?thesis
      by (simp add: after_writes_merge insert_all_idem)
  qed
qed

lemma transfers_map:
  "transfers S T axes fcs =
     map the (filter (\<lambda>x. x \<noteq> None) (map (transfer_of S T axes) fcs))"
  by (simp add: transfers_def List.map_filter_def filter_map comp_def)

lemma transfers_extends:
  assumes e: "extends S fcs0 fcs"
  shows "transfers S T axes fcs = transfers S T axes fcs0"
proof -
  let ?n = "length fcs0"
  from e have n: "?n \<le> length fcs" by (simp add: extends_def)
  have 1: "map (transfer_of S T axes) (take ?n fcs) = map (transfer_of S T axes) fcs0"
    using n by (intro nth_equalityI) (simp_all add: transfer_of_extends[OF e])
  have "transfer_of S T axes fc = None" if "fc \<in> set (drop ?n fcs)" for fc
  proof -
    from that obtain m where "m < length fcs - ?n" "fc = fcs ! (?n + m)"
      by (auto simp: in_set_conv_nth)
    with e have "\<not> prefix (source_prefix S) (data_path fc)" by (simp add: extends_def)
    then show ?thesis by (rule transfer_of_not_source)
  qed
  then have 2: "transfers S T axes (drop ?n fcs) = []"
    by (simp add: transfers_map filter_empty_conv)
  have "transfers S T axes fcs = transfers S T axes (take ?n fcs @ drop ?n fcs)" by simp
  also have "\<dots> = transfers S T axes (take ?n fcs)"
    unfolding transfers_append 2 by simp
  also have "\<dots> = transfers S T axes fcs0" by (simp add: transfers_map 1)
  finally show ?thesis .
qed

lemma channel_copy_fcurves_again:
  assumes sep: "\<And>p. \<not> prefix (source_prefix S) (bone_path T p)"
  shows "channel p j (fst (copy_fcurves new S T axes ra
                            (fst (copy_fcurves new S T axes ra (fcs, lg)), lg'))) =
         channel p j (fst (copy_fcurves new S T axes ra (fcs, lg)))"
  by (simp add: channel_copy_fcurves[OF sep]
        transfers_extends[OF copy_fcurves_writes(2)[OF sep]] after_writes_idem)


lemma foldl_copy_keyframe_no_error:
  "ERROR \<notin> fst ` set (snd st) \<Longrightarrow>
   ERROR \<notin> fst ` set (snd (foldl (copy_keyframe new k j s) st pts))"
  by (induction pts arbitrary: st) (simp_all add: copy_keyframe_def Let_def)

lemma copy_fcurve_no_error:
  "ERROR \<notin> fst ` set (snd st) \<Longrightarrow>
   ERROR \<notin> fst ` set (snd (copy_fcurve new S T axes ra st i))"
proof -
  assume a: "ERROR \<notin> fst ` set (snd st)"
  have *: "ERROR \<notin> fst ` set (snd (foldl (copy_keyframe new k j s) (f, snd st @ [(INFO, m)]) pts))"
    for k j s f m pts
    using a by (intro foldl_copy_keyframe_no_error) simp
  show ?thesis
    unfolding copy_fcurve_def Let_def using a
    by (auto split: option.splits prod.splits simp: * simp del: image_iff)
qed

lemma copy_fcurves_no_error:
  "ERROR \<notin> fst ` set lg \<Longrightarrow>
   ERROR \<notin> fst ` set (snd (copy_fcurves new S T axes ra (fcs, lg)))"
proof -
  have "ERROR \<notin> fst ` set (snd st) \<Longrightarrow>
        ERROR \<notin> fst ` set (snd (foldl (copy_fcurve new S T axes ra) st is))" for st "is"
    by (induction "is" arbitrary: st) (simp_all add: copy_fcurve_no_error)
  from this[of "(fcs, lg)"] show "ERROR \<notin> fst ` set lg \<Longrightarrow> ?thesis"
    by (simp add: copy_fcurves_def)
qed

lemma CopyBoneKeyframesOperator_execute_finish:
  assumes "ctx_object ctx = Some obj" and "obj_type obj = ''ARMATURE''"
    and "selected_pose_bones ctx = Some [a, b]" and "active_pose_bone ctx = Some T"
    and "T = a \<or> T = b"
    and "animation_data obj = Some (AnimData (Some fcs))"
  shows "CopyBoneKeyframesOperator_execute new axis u ctx =
           finish (set_fcurves ctx obj
                     (fst (copy_fcurves new (if b = T then a else b) T
                             (fst (profile_of u (scene ctx))) (snd (profile_of u (scene ctx)))
                             (fcs, []))))
             (snd (copy_fcurves new (if b = T then a else b) T
                     (fst (profile_of u (scene ctx))) (snd (profile_of u (scene ctx)))
                     (fcs, [])) @ [(INFO, CopiedAxis axis)])"
  using assms
  by (auto simp: CopyBoneKeyframesOperator_execute_def profile_of_def Let_def split: prod.splits)

lemma CopyBoneKeyframesOperator_execute_cases:
  obtains (failed) r where "\<And>axis. CopyBoneKeyframesOperator_execute new axis u ctx = r" "res_ctx r = ctx"
      "(\<exists>e. res_ret r = Raised e) \<or> ERROR \<in> fst ` set (res_log r)"
  | (finished) obj a b T fcs where
      "ctx_object ctx = Some obj" "obj_type obj = ''ARMATURE''"
      "selected_pose_bones ctx = Some [a, b]" "active_pose_bone ctx = Some T"
      "T = a \<or> T = b" "animation_data obj = Some (AnimData (Some fcs))"
proof (cases "ctx_object ctx")
  case None
  then show ?thesis
    by (intro failed[of "cancel ctx [(ERROR, NotArmature)]"])
       (simp_all add: CopyBoneKeyframesOperator_execute_def cancel_def)
next
  case obj: (Some obj)
  show ?thesis
  proof (cases "obj_type obj = ''ARMATURE''")
    case False
    with obj show ?thesis
      by (intro failed[of "cancel ctx [(ERROR, NotArmature)]"])
         (simp_all add: CopyBoneKeyframesOperator_execute_def cancel_def)
  next
    case arm: True
    show ?thesis
    proof (cases "selected_pose_bones ctx")
      case None
      with obj arm show ?thesis
        by (intro failed[of "raise TypeError ctx []"]) (simp_all add: CopyBoneKeyframesOperator_execute_def raise_def)
    next
      case sel: (Some bones)
      show ?thesis
      proof (cases "length bones = 2")
        case False
        with obj arm sel show ?thesis
          by (intro failed[of "cancel ctx [(ERROR, SelectTwoBones)]"])
             (simp_all add: CopyBoneKeyframesOperator_execute_def cancel_def)
      next
        case True
        then obtain a b where bones: "bones = [a, b]"
          by (cases bones; cases "tl bones") auto
        show ?thesis
        proof (cases "active_pose_bone ctx")
          case None
          with obj arm sel bones show ?thesis
            by (intro failed[of "cancel ctx [(ERROR, ActiveNotSelected)]"])
               (simp_all add: CopyBoneKeyframesOperator_execute_def cancel_def)
        next
          case act: (Some T)
          show ?thesis
          proof (cases "T \<in> set bones")
            case False
            with obj arm sel bones act show ?thesis
              by (intro failed[of "cancel ctx [(ERROR, ActiveNotSelected)]"])
                 (simp_all add: CopyBoneKeyframesOperator_execute_def cancel_def)
          next
            case inb: True
            show ?thesis
            proof (cases "animation_data obj")
              case None
              with obj arm sel bones act inb show ?thesis
                by (intro failed[of "raise AttributeError ctx []"])
                   (auto simp: CopyBoneKeyframesOperator_execute_def raise_def Let_def split: prod.splits)
            next
              case (Some ad)
              show ?thesis
              proof (cases "action ad")
                case None
                with Some obj arm sel bones act inb show ?thesis
                  by (intro failed[of "cancel ctx [(ERROR, NoAnimationData)]"])
                     (auto simp: CopyBoneKeyframesOperator_execute_def cancel_def Let_def split: prod.splits)
              next
                case fcs: (Some fcs)
                with Some have "animation_data obj = Some (AnimData (Some fcs))"
                  by (cases ad) simp
                with obj arm sel bones act inb show ?thesis
                  by (intro finished[of obj a b T fcs]) auto
              qed
            qed
          qed
        qed
      qed
    qed
  qed
qed


lemma copy_all_failed:
  assumes "\<And>axis. CopyBoneKeyframesOperator_execute new axis u ctx = r" and "res_ctx r = ctx"
    and "(\<exists>e. res_ret r = Raised e) \<or> ERROR \<in> fst ` set (res_log r)"
  shows "res_ctx (CopyAllAxesKeyframesOperator_execute new u ctx) = ctx"
  using assms
  by (auto simp: CopyAllAxesKeyframesOperator_execute_def cancel_def raise_def split: option.splits)

lemma copy_all_loop_fcurves:
  assumes "ctx_object ctx = Some obj" and "obj_type obj = ''ARMATURE''"
    and "selected_pose_bones ctx = Some [a, b]" and "active_pose_bone ctx = Some T"
    and "T = a \<or> T = b"
    and "animation_data obj = Some (AnimData (Some fcs))"
    and "scene ctx = sc"
  shows "ctx_fcurves (res_ctx (copy_all_loop new u axs ctx lg)) =
           Some (((\<lambda>f. fst (copy_fcurves new (if b = T then a else b) T
                              (fst (profile_of u sc)) (snd (profile_of u sc)) (f, [])))
                  ^^ length axs) fcs)"
  using assms
proof (induction axs arbitrary: ctx obj fcs lg)
  case Nil
  then show ?case by (simp add: finish_def ctx_fcurves_def)
next
  case (Cons axis axs)
  let ?L = "\<lambda>f. fst (copy_fcurves new (if b = T then a else b) T
                       (fst (profile_of u sc)) (snd (profile_of u sc)) (f, []))"
  let ?l = "snd (copy_fcurves new (if b = T then a else b) T
                   (fst (profile_of u sc)) (snd (profile_of u sc)) (fcs, []))"
  let ?obj' = "obj\<lparr>animation_data := Some (AnimData (Some (?L fcs)))\<rparr>"
  let ?ctx' = "set_fcurves ctx obj (?L fcs)"
  have r: "CopyBoneKeyframesOperator_execute new axis u ctx = finish ?ctx' (?l @ [(INFO, CopiedAxis axis)])"
    using CopyBoneKeyframesOperator_execute_finish[OF Cons.prems(1-6), of new axis u] Cons.prems(7) by simp
  have ne: "ERROR \<notin> fst ` set (?l @ [(INFO, CopiedAxis axis)])"
    using copy_fcurves_no_error[of "[]" new "if b = T then a else b" T
        "fst (profile_of u sc)" "snd (profile_of u sc)" fcs]
    by simp
  have step: "copy_all_loop new u (axis # axs) ctx lg =
              copy_all_loop new u axs ?ctx' (lg @ ?l @ [(INFO, CopiedAxis axis)])"
    using ne by (simp add: r finish_def del: set_append)
  have "ctx_fcurves (res_ctx (copy_all_loop new u axs ?ctx' (lg @ ?l @ [(INFO, CopiedAxis axis)]))) =
        Some ((?L ^^ length axs) (?L fcs))"
    using Cons.prems
    by (intro Cons.IH[of ?ctx' ?obj' "?L fcs"]) (simp_all add: set_fcurves_def)
  moreover have "(?L ^^ length (axis # axs)) fcs = (?L ^^ length axs) (?L fcs)"
    by (simp only: length_Cons funpow_Suc_right o_apply)
  ultimately show ?case unfolding step by (simp only:)
qed

lemma funpow_three: "(f ^^ length [x, y, z]) v = f (f (f v))"
  by simp

text \<open>
  Claim C9. The copy operator's \<open>axis\<close> only shows in its last report: for two values of
  \<open>axis\<close> the operator returns the same status and the same context, and its reports are
  the same up to the axis named in the final message; the loop it runs visits every curve
  of the action (see \<open>CopyBoneKeyframesOperator_execute_finish\<close>). When the selected bones are different bones
  with plain names, every channel of the action has after the copy-all-axes operator, which
  calls the copy operator three times, the points it has after one call of the copy
  operator.
\<close>

theorem copy_all_axes_same_as_one:
  "res_ret (CopyBoneKeyframesOperator_execute new axis u ctx) =
     res_ret (CopyBoneKeyframesOperator_execute new axis' u ctx) \<and>
   res_ctx (CopyBoneKeyframesOperator_execute new axis u ctx) =
     res_ctx (CopyBoneKeyframesOperator_execute new axis' u ctx) \<and>
   (res_log (CopyBoneKeyframesOperator_execute new axis u ctx) =
      res_log (CopyBoneKeyframesOperator_execute new axis' u ctx) \<or>
    (\<exists>l. res_log (CopyBoneKeyframesOperator_execute new axis u ctx) = l @ [(INFO, CopiedAxis axis)] \<and>
         res_log (CopyBoneKeyframesOperator_execute new axis' u ctx) = l @ [(INFO, CopiedAxis axis')])) \<and>
   (distinct_selection ctx \<and> plain_selection ctx \<longrightarrow>
    (\<forall>p j. ctx_channel p j (res_ctx (CopyAllAxesKeyframesOperator_execute new u ctx)) =
           ctx_channel p j (res_ctx (CopyBoneKeyframesOperator_execute new axis u ctx))))"
proof (cases rule: CopyBoneKeyframesOperator_execute_cases[of new u ctx])
  case (failed r)
  from copy_all_failed[OF failed] failed(1,2) show ?thesis by simp
next
  case (finished obj a b T fcs)
  let ?S = "if b = T then a else b"
  let ?axes = "fst (profile_of u (scene ctx))"
  let ?ra = "snd (profile_of u (scene ctx))"
  let ?L = "\<lambda>f. fst (copy_fcurves new ?S T ?axes ?ra (f, []))"
  note one = CopyBoneKeyframesOperator_execute_finish[OF finished, of new _ u]
  have "ctx_channel p j (res_ctx (CopyAllAxesKeyframesOperator_execute new u ctx)) =
      ctx_channel p j (res_ctx (CopyBoneKeyframesOperator_execute new axis u ctx))"
    if sel: "distinct_selection ctx" "plain_selection ctx" for p j
  proof -
    from sel finished(3) have ab: "a \<noteq> b" "plain_name a" "plain_name b"
      by (simp_all add: distinct_selection_def plain_selection_def)
    with finished(5) have "plain_name ?S" "plain_name T" "?S \<noteq> T" by auto
    then have sep: "\<And>p. \<not> prefix (source_prefix ?S) (bone_path T p)" by (rule separate_paths)
    have all: "CopyAllAxesKeyframesOperator_execute new u ctx = copy_all_loop new u [''X'', ''Y'', ''Z''] ctx []"
      using finished by (auto simp: CopyAllAxesKeyframesOperator_execute_def)
    have "ctx_fcurves (res_ctx (CopyAllAxesKeyframesOperator_execute new u ctx)) = Some (?L (?L (?L fcs)))"
      unfolding all
      using copy_all_loop_fcurves[OF finished refl, of new u "[''X'', ''Y'', ''Z'']" "[]"]
      by (simp only: funpow_three)
    moreover have "ctx_fcurves (res_ctx (CopyBoneKeyframesOperator_execute new axis u ctx)) = Some (?L fcs)"
      by (simp add: one finish_def set_fcurves_def ctx_fcurves_def)
    moreover have "channel p j (?L (?L (?L fcs))) = channel p j (?L fcs)" for p j
      using channel_copy_fcurves_again[OF sep, of p j new ?axes ?ra _ "[]" "[]"] by simp
    ultimately show ?thesis
      by (simp add: ctx_channel_def)
  qed
  then have "distinct_selection ctx \<and> plain_selection ctx \<longrightarrow>
      (\<forall>p j. ctx_channel p j (res_ctx (CopyAllAxesKeyframesOperator_execute new u ctx)) =
             ctx_channel p j (res_ctx (CopyBoneKeyframesOperator_execute new axis u ctx)))"
    by blast
  moreover have "res_ret (CopyBoneKeyframesOperator_execute new axis u ctx) =
      res_ret (CopyBoneKeyframesOperator_execute new axis' u ctx)"
    "res_ctx (CopyBoneKeyframesOperator_execute new axis u ctx) =
      res_ctx (CopyBoneKeyframesOperator_execute new axis' u ctx)"
    "\<exists>l. res_log (CopyBoneKeyframesOperator_execute new axis u ctx) = l @ [(INFO, CopiedAxis axis)] \<and>
         res_log (CopyBoneKeyframesOperator_execute new axis' u ctx) = l @ [(INFO, CopiedAxis axis')]"
    by (simp_all add: one finish_def)
  ultimately show ?thesis by blast
qed


theorem copy_all_axes_same_as_one_witness:
  "distinct_selection merge_ctx \<and> plain_selection merge_ctx \<and>
   res_ret (CopyBoneKeyframesOperator_execute flat_point ''X'' False merge_ctx) = Returned FINISHED \<and>
   ctx_channel (bone_path ''Foot'' ''location'') 1
     (res_ctx (CopyBoneKeyframesOperator_execute flat_point ''X'' False merge_ctx)) =
     Some [flat_point 1 2, flat_point 5 99] \<and>
   ctx_channel (bone_path ''Foot'' ''location'') 1
     (res_ctx (CopyAllAxesKeyframesOperator_execute flat_point False merge_ctx)) =
     Some [flat_point 1 2, flat_point 5 99]"
proof -
  have h: "distinct_selection merge_ctx" "plain_selection merge_ctx"
    by (simp_all add: distinct_selection_def plain_selection_def plain_name_def merge_ctx_def)
  have e: "CopyBoneKeyframesOperator_execute flat_point ''X'' False merge_ctx =
           finish (set_fcurves merge_ctx (armature [''Hand'', ''Foot''] foot_fcs)
                     (fst (copy_fcurves flat_point ''Hand'' ''Foot'' [''X+'', ''Y+'', ''Z+''] False
                            (foot_fcs, []))))
             (snd (copy_fcurves flat_point ''Hand'' ''Foot'' [''X+'', ''Y+'', ''Z+''] False
                     (foot_fcs, [])) @ [(INFO, CopiedAxis ''X'')])"
    by (simp add: CopyBoneKeyframesOperator_execute_def merge_ctx_def armature_def primary_profile_def
          default_scene_def Let_def)
  have c: "channel (bone_path ''Foot'' ''location'') 1
     (fst (copy_fcurves flat_point ''Hand'' ''Foot'' [''X+'', ''Y+'', ''Z+''] False (foot_fcs, []))) =
     Some [flat_point 1 2, flat_point 5 99]"
    by (simp add: foot_fcs_def transfer_eval)
  have one: "ctx_channel (bone_path ''Foot'' ''location'') 1
     (res_ctx (CopyBoneKeyframesOperator_execute flat_point ''X'' False merge_ctx)) =
     Some [flat_point 1 2, flat_point 5 99]"
    unfolding e using c by (simp add: ctx_channel_def ctx_fcurves_def finish_def set_fcurves_def)
  from copy_all_axes_same_as_one[where ctx = merge_ctx and new = flat_point and axis = "''X''"
         and u = False and axis' = "''X''"] h one
  have "ctx_channel (bone_path ''Foot'' ''location'') 1
     (res_ctx (CopyAllAxesKeyframesOperator_execute flat_point False merge_ctx)) =
     Some [flat_point 1 2, flat_point 5 99]"
    by simp
  with h one e show ?thesis by (simp add: finish_def)
qed

end
